theory Spec2Isabelle
  imports Complex_Main
begin

section \<open>Objects and the store\<close>

text \<open>
  The engine (\<^verbatim>\<open>game.ts\<close>) works on mutable objects that refer to each other: a
  \<^verbatim>\<open>Place\<close> points to its exit and entrance places and to the insects it holds, and an
  insect points back to its place. Objects are therefore kept in a store and named by
  references; \<^verbatim>\<open>undefined\<close> is \<open>None\<close>.
\<close>

type_synonym place_ref = nat
type_synonym ant_ref = nat
type_synonym bee_ref = nat

text \<open>
  Modelled from the spec: the classes of \<^verbatim>\<open>ants.ts\<close> are not part of the sources at hand.
  The defender variants are the five that \<^verbatim>\<open>AntGame.deployAnt\<close> constructs (grower, thrower,
  eater, scuba, guard), taken as a closed set of classes, none a subclass of another; a
  defender has a food cost, a single optional current boost and a back-reference to its
  place.
\<close>

datatype ant_class = GrowerAnt | ThrowerAnt | EaterAnt | ScubaAnt | GuardAnt

record Ant =
  antClass :: ant_class
  foodCost :: int
  boost :: "string option"
  antPlace :: "place_ref option"

text \<open>
  Modelled from the spec: an invader (\<^verbatim>\<open>Bee\<close> of \<^verbatim>\<open>ants.ts\<close>) has armor and damage magnitudes
  and a back-reference to its current location.
\<close>

record Bee =
  armor :: int
  damage :: int
  beePlace :: "place_ref option"

record Place =
  name :: string
  water :: bool
  exit :: "place_ref option"
  entrance :: "place_ref option"
  ant :: "ant_ref option"
  guard :: "ant_ref option"
  bees :: "bee_ref list"

record store =
  placeAt :: "place_ref \<Rightarrow> Place"
  antAt :: "ant_ref \<Rightarrow> Ant"
  beeAt :: "bee_ref \<Rightarrow> Bee"
  nextPlace :: nat
  nextAnt :: nat
  nextBee :: nat
  randomCalls :: nat

datatype Insect = AnAnt ant_ref | ABee bee_ref

datatype error = TypeError

definition updatePlace :: "place_ref \<Rightarrow> (Place \<Rightarrow> Place) \<Rightarrow> store \<Rightarrow> store" where
  "updatePlace p f s = s\<lparr>placeAt := (placeAt s)(p := f (placeAt s p))\<rparr>"

text \<open>
  Modelled from the spec: \<^verbatim>\<open>Insect.setPlace\<close> (in \<^verbatim>\<open>ants.ts\<close>) stores the back-reference of
  an insect; \<^verbatim>\<open>Ant.setBoost\<close> stores the current boost, the last one applied replacing any
  earlier one; \<^verbatim>\<open>Ant.getFoodCost\<close> reads the food cost.
\<close>

definition Ant_setPlace :: "ant_ref \<Rightarrow> place_ref option \<Rightarrow> store \<Rightarrow> store" where
  "Ant_setPlace a p s = s\<lparr>antAt := (antAt s)(a := (antAt s a)\<lparr>antPlace := p\<rparr>)\<rparr>"

definition Bee_setPlace :: "bee_ref \<Rightarrow> place_ref option \<Rightarrow> store \<Rightarrow> store" where
  "Bee_setPlace b p s = s\<lparr>beeAt := (beeAt s)(b := (beeAt s b)\<lparr>beePlace := p\<rparr>)\<rparr>"

definition Ant_setBoost :: "ant_ref \<Rightarrow> string \<Rightarrow> store \<Rightarrow> store" where
  "Ant_setBoost a b s = s\<lparr>antAt := (antAt s)(a := (antAt s a)\<lparr>boost := Some b\<rparr>)\<rparr>"

definition Ant_getFoodCost :: "ant_ref \<Rightarrow> store \<Rightarrow> int" where
  "Ant_getFoodCost a s = foodCost (antAt s a)"

definition instanceofGuardAnt :: "ant_ref \<Rightarrow> store \<Rightarrow> bool" where
  "instanceofGuardAnt a s = (antClass (antAt s a) = GuardAnt)"

definition instanceofScubaAnt :: "ant_ref option \<Rightarrow> store \<Rightarrow> bool" where
  "instanceofScubaAnt a s = (case a of None \<Rightarrow> False | Some r \<Rightarrow> antClass (antAt s r) = ScubaAnt)"

section \<open>Place\<close>

definition Place_getAnt :: "place_ref \<Rightarrow> store \<Rightarrow> ant_ref option" where
  "Place_getAnt p s =
     (case guard (placeAt s p) of Some g \<Rightarrow> Some g | None \<Rightarrow> ant (placeAt s p))"

definition Place_getGuardedAnt :: "place_ref \<Rightarrow> store \<Rightarrow> ant_ref option" where
  "Place_getGuardedAnt p s = ant (placeAt s p)"

definition Place_getBees :: "place_ref \<Rightarrow> store \<Rightarrow> bee_ref list" where
  "Place_getBees p s = bees (placeAt s p)"

definition Place_setEntrance :: "place_ref \<Rightarrow> place_ref \<Rightarrow> store \<Rightarrow> store" where
  "Place_setEntrance p e s = updatePlace p (\<lambda>pl. pl\<lparr>entrance := Some e\<rparr>) s"

text \<open>\<^verbatim>\<open>addAnt\<close>: the result is the returned flag and the store after the call.\<close>

definition Place_addAnt :: "ant_ref \<Rightarrow> place_ref \<Rightarrow> store \<Rightarrow> bool \<times> store" where
  "Place_addAnt a p s =
     (if instanceofGuardAnt a s then
        (if guard (placeAt s p) = None
         then (True, Ant_setPlace a (Some p) (updatePlace p (\<lambda>pl. pl\<lparr>guard := Some a\<rparr>) s))
         else (False, s))
      else
        (if ant (placeAt s p) = None
         then (True, Ant_setPlace a (Some p) (updatePlace p (\<lambda>pl. pl\<lparr>ant := Some a\<rparr>) s))
         else (False, s)))"

text \<open>\<^verbatim>\<open>removeAnt\<close>: the removed defender (if any) and the store after the call.\<close>

definition Place_removeAnt :: "place_ref \<Rightarrow> store \<Rightarrow> ant_ref option \<times> store" where
  "Place_removeAnt p s =
     (case guard (placeAt s p) of
        Some g \<Rightarrow> (Some g, updatePlace p (\<lambda>pl. pl\<lparr>guard := None\<rparr>) s)
      | None \<Rightarrow> (ant (placeAt s p), updatePlace p (\<lambda>pl. pl\<lparr>ant := None\<rparr>) s))"

definition Place_addBee :: "bee_ref \<Rightarrow> place_ref \<Rightarrow> store \<Rightarrow> store" where
  "Place_addBee b p s =
     Bee_setPlace b (Some p) (updatePlace p (\<lambda>pl. pl\<lparr>bees := bees pl @ [b]\<rparr>) s)"

text \<open>\<^verbatim>\<open>Array.indexOf\<close> (\<open>-1\<close> when absent) and \<^verbatim>\<open>Array.splice(index, 1)\<close>.\<close>

fun indexOf :: "'a list \<Rightarrow> 'a \<Rightarrow> int" where
  "indexOf [] y = -1"
| "indexOf (x # xs) y = (if x = y then 0 else (let i = indexOf xs y in if i < 0 then -1 else i + 1))"

definition splice1 :: "int \<Rightarrow> 'a list \<Rightarrow> 'a list" where
  "splice1 i xs = take (nat i) xs @ drop (nat i + 1) xs"

definition Place_removeBee :: "bee_ref \<Rightarrow> place_ref \<Rightarrow> store \<Rightarrow> store" where
  "Place_removeBee b p s =
     (let index = indexOf (bees (placeAt s p)) b in
      if index \<ge> 0
      then Bee_setPlace b None (updatePlace p (\<lambda>pl. pl\<lparr>bees := splice1 index (bees pl)\<rparr>) s)
      else s)"

definition Place_removeInsect :: "Insect \<Rightarrow> place_ref \<Rightarrow> store \<Rightarrow> store" where
  "Place_removeInsect insect p s =
     (case insect of
        AnAnt a \<Rightarrow> snd (Place_removeAnt p s)
      | ABee b \<Rightarrow> Place_removeBee b p s)"

definition Place_act :: "place_ref \<Rightarrow> store \<Rightarrow> store" where
  "Place_act p s =
     (if water (placeAt s p) then
        (let s1 = (if guard (placeAt s p) \<noteq> None then snd (Place_removeAnt p s) else s)
         in if \<not> instanceofScubaAnt (ant (placeAt s1 p)) s1
            then snd (Place_removeAnt p s1) else s1)
      else s)"

text \<open>
  A run of \<^verbatim>\<open>addAnt\<close> calls on one place, in order, with the flag each call returned
  (used to state what a sequence of calls can do to the two slots).
\<close>

fun addAnt_calls :: "ant_ref list \<Rightarrow> place_ref \<Rightarrow> store \<Rightarrow> bool list \<times> store" where
  "addAnt_calls [] p s = ([], s)"
| "addAnt_calls (a # as) p s =
     (let (ok, s1) = Place_addAnt a p s; (oks, s2) = addAnt_calls as p s1 in (ok # oks, s2))"

text \<open>The slot of a place that a defender of the given class goes to.\<close>

definition slotFor :: "ant_class \<Rightarrow> Place \<Rightarrow> ant_ref option" where
  "slotFor c pl = (if c = GuardAnt then guard pl else ant pl)"

definition otherSlot :: "ant_class \<Rightarrow> Place \<Rightarrow> ant_ref option" where
  "otherSlot c pl = (if c = GuardAnt then ant pl else guard pl)"


text \<open>
  \<^verbatim>\<open>getClosestBee\<close>: the \<^verbatim>\<open>for\<close> loop over \<^verbatim>\<open>dist\<close> (here \<open>dst\<close>), walking the
  \<open>entrance\<close> links. The loop variable \<open>p\<close> is a reference or \<^verbatim>\<open>undefined\<close>.
\<close>

function getClosestBee_loop ::
  "store \<Rightarrow> int \<Rightarrow> int \<Rightarrow> place_ref option \<Rightarrow> int \<Rightarrow> bee_ref option" where
  "getClosestBee_loop s maxDistance minDistance p dst =
     (case p of
        None \<Rightarrow> None
      | Some q \<Rightarrow>
          if dst \<le> maxDistance then
            (if dst \<ge> minDistance \<and> length (bees (placeAt s q)) > 0
             then Some (bees (placeAt s q) ! 0)
             else getClosestBee_loop s maxDistance minDistance (entrance (placeAt s q)) (dst + 1))
          else None)"
  by pat_completeness auto
termination
  by (relation "measure (\<lambda>(s, maxDistance, minDistance, p, dst). nat (maxDistance + 1 - dst))") auto

definition Place_getClosestBee :: "place_ref \<Rightarrow> int \<Rightarrow> int \<Rightarrow> store \<Rightarrow> bee_ref option" where
  "Place_getClosestBee p maxDistance minDistance s =
     getClosestBee_loop s maxDistance minDistance (Some p) 0"

text \<open>
  The place reached from \<open>p\<close> by following \<open>d\<close> entrance links, if the chain is that long
  (used to state what \<^verbatim>\<open>getClosestBee\<close> finds).
\<close>

fun hops :: "store \<Rightarrow> place_ref \<Rightarrow> nat \<Rightarrow> place_ref option" where
  "hops s p 0 = Some p"
| "hops s p (Suc d) = (case entrance (placeAt s p) of None \<Rightarrow> None | Some q \<Rightarrow> hops s q d)"

text \<open>The place at hop distance \<open>d\<close> exists and holds at least one invader.\<close>

definition occupiedAt :: "store \<Rightarrow> place_ref \<Rightarrow> nat \<Rightarrow> bool" where
  "occupiedAt s p d = (case hops s p d of None \<Rightarrow> False | Some q \<Rightarrow> bees (placeAt s q) \<noteq> [])"

text \<open>\<^verbatim>\<open>new Place(name, water, exit, entrance)\<close>: a fresh object in the store.\<close>

definition newPlace ::
  "string \<Rightarrow> bool \<Rightarrow> place_ref option \<Rightarrow> place_ref option \<Rightarrow> store \<Rightarrow> place_ref \<times> store" where
  "newPlace nm w ex en s =
     (nextPlace s,
      s\<lparr>placeAt := (placeAt s)(nextPlace s :=
           \<lparr>name = nm, water = w, exit = ex, entrance = en, ant = None, guard = None, bees = []\<rparr>),
        nextPlace := Suc (nextPlace s)\<rparr>)"

text \<open>
  Modelled from the spec: \<^verbatim>\<open>new Bee(armor, damage, place)\<close> (constructor in \<^verbatim>\<open>ants.ts\<close>)
  creates an invader with the given magnitudes and back-reference.
\<close>

definition newBee :: "int \<Rightarrow> int \<Rightarrow> place_ref option \<Rightarrow> store \<Rightarrow> bee_ref \<times> store" where
  "newBee a d p s =
     (nextBee s,
      s\<lparr>beeAt := (beeAt s)(nextBee s := \<lparr>armor = a, damage = d, beePlace = p\<rparr>),
        nextBee := Suc (nextBee s)\<rparr>)"

section \<open>Hive\<close>

text \<open>
  \<^verbatim>\<open>Hive extends Place\<close>: the inherited fields are the place object at \<open>hiveRef\<close>; the
  record holds the fields the subclass adds.
\<close>

record Hive =
  hiveRef :: place_ref
  beeArmor :: int
  beeDamage :: int
  waves :: "int \<rightharpoonup> bee_ref list"

definition newHive :: "int \<Rightarrow> int \<Rightarrow> store \<Rightarrow> Hive \<times> store" where
  "newHive a d s =
     (let (r, s1) = newPlace ''Hive'' False None None s
      in (\<lparr>hiveRef = r, beeArmor = a, beeDamage = d, waves = Map.empty\<rparr>, s1))"

function addWave_loop ::
  "Hive \<Rightarrow> int \<Rightarrow> int \<Rightarrow> bee_ref list \<Rightarrow> store \<Rightarrow> bee_ref list \<times> store" where
  "addWave_loop h numBees i wave s =
     (if i < numBees then
        (let (bee, s1) = newBee (beeArmor h) (beeDamage h) (Some (hiveRef h)) s;
             s2 = Place_addBee bee (hiveRef h) s1
         in addWave_loop h numBees (i + 1) (wave @ [bee]) s2)
      else (wave, s))"
  by pat_completeness auto
termination
  by (relation "measure (\<lambda>(h, numBees, i, wave, s). nat (numBees - i))") auto

definition Hive_addWave :: "int \<Rightarrow> int \<Rightarrow> Hive \<Rightarrow> store \<Rightarrow> Hive \<times> store" where
  "Hive_addWave attackTurn numBees h s =
     (let (wave, s1) = addWave_loop h numBees 0 [] s
      in (h\<lparr>waves := (waves h)(attackTurn \<mapsto> wave)\<rparr>, s1))"

text \<open>
  \<^verbatim>\<open>Math.random()\<close>: the source of randomness is a parameter \<open>rnd\<close>, the sequence of numbers
  the calls return; the store counts the calls made.
\<close>

definition Math_random :: "(nat \<Rightarrow> real) \<Rightarrow> store \<Rightarrow> real \<times> store" where
  "Math_random rnd s = (rnd (randomCalls s), s\<lparr>randomCalls := Suc (randomCalls s)\<rparr>)"

text \<open>
  The body of \<^verbatim>\<open>invade\<close>'s \<^verbatim>\<open>forEach\<close>, over the bees of the wave. \<^verbatim>\<open>entrances[randEntrance]\<close>
  is \<^verbatim>\<open>undefined\<close> outside the array, and the call of \<^verbatim>\<open>addBee\<close> on it raises. A raise is
  \<open>Inl\<close> of the error and the store as it is at that point: what was done before stays done.
\<close>

fun invade_forEach ::
  "(nat \<Rightarrow> real) \<Rightarrow> place_ref \<Rightarrow> place_ref list \<Rightarrow> bee_ref list \<Rightarrow> store
     \<Rightarrow> error \<times> store + store" where
  "invade_forEach rnd hr entrances [] s = Inr s"
| "invade_forEach rnd hr entrances (bee # wave) s =
     (let s1 = Place_removeBee bee hr s;
          (r, s2) = Math_random rnd s1;
          randEntrance = \<lfloor>r * real (length entrances)\<rfloor>
      in if 0 \<le> randEntrance \<and> randEntrance < int (length entrances)
         then invade_forEach rnd hr entrances wave
                (Place_addBee bee (entrances ! nat randEntrance) s2)
         else Inl (TypeError, s2))"

section \<open>AntColony\<close>

text \<open>
  The boost inventory is the object \<^verbatim>\<open>{[index:string]:number}\<close>. The field \<open>boosts\<close> holds its own
  properties. What is read under a name is a number or, for a name the object does not
  hold itself but inherits from \<^verbatim>\<open>Object.prototype\<close> (\<^verbatim>\<open>toString\<close>, \<^verbatim>\<open>constructor\<close>, \<dots>), a value that
  is no number; an own property can be no number too, once 1 was added to such a value.
\<close>

datatype jsvalue = JSNumber int | JSOther

record AntColony =
  food :: int
  places :: "place_ref list list"
  beeEntrances :: "place_ref list"
  queenPlace :: place_ref
  boosts :: "string \<rightharpoonup> jsvalue"

definition AntColony_getEntrances :: "AntColony \<Rightarrow> place_ref list" where
  "AntColony_getEntrances c = beeEntrances c"

text \<open>\<^verbatim>\<open>Hive.invade\<close>, stated here because it reads the colony's entrances.\<close>

definition Hive_invade ::
  "(nat \<Rightarrow> real) \<Rightarrow> Hive \<Rightarrow> AntColony \<Rightarrow> int \<Rightarrow> store
     \<Rightarrow> error \<times> store + bee_ref list \<times> store" where
  "Hive_invade rnd h c currentTurn s =
     (case waves h currentTurn of
        Some wave \<Rightarrow>
          (case invade_forEach rnd (hiveRef h) (AntColony_getEntrances c) wave s of
             Inl e \<Rightarrow> Inl e
           | Inr s1 \<Rightarrow> Inr (wave, s1))
      | None \<Rightarrow> Inr ([], s))"


definition AntColony_getQueenPlace :: "AntColony \<Rightarrow> place_ref" where
  "AntColony_getQueenPlace c = queenPlace c"

definition AntColony_getPlaces :: "AntColony \<Rightarrow> place_ref list list" where
  "AntColony_getPlaces c = places c"

text \<open>
  The remainder operator \<^verbatim>\<open>%\<close> on integers (the sign follows the dividend), and the decimal
  text of a non-negative integer, as string concatenation produces it.
\<close>

definition jsRem :: "int \<Rightarrow> int \<Rightarrow> int" where
  "jsRem a b = sgn a * (\<bar>a\<bar> mod \<bar>b\<bar>)"

definition digitChar :: "nat \<Rightarrow> char" where
  "digitChar n = ''0123456789'' ! n"

function showNat :: "nat \<Rightarrow> string" where
  "showNat n = (if n < 10 then [digitChar n] else showNat (n div 10) @ [digitChar (n mod 10)])"
  by pat_completeness auto
termination
  by (relation "measure (\<lambda>n. n)") auto

text \<open>
  The constructor's inner loop over \<open>step\<close> and outer loop over \<open>tunnel\<close> (the variable
  \<^verbatim>\<open>curr\<close> is \<open>cur\<close> here). The assignment \<^verbatim>\<open>this.places[tunnel][step] = curr\<close> writes at the
  index equal to the length of the row so far, so it appends; likewise
  \<^verbatim>\<open>this.places[tunnel] = []\<close> starts the row that the outer loop then holds at index
  \<open>tunnel\<close>.
\<close>

function AntColony_steps ::
  "int \<Rightarrow> int \<Rightarrow> int \<Rightarrow> int \<Rightarrow> place_ref \<Rightarrow> place_ref list \<Rightarrow> store
     \<Rightarrow> place_ref \<times> place_ref list \<times> store" where
  "AntColony_steps tunnel tunnelLength moatFrequency step cur row s =
     (if step < tunnelLength then
        (let typeName = (if moatFrequency \<noteq> 0 \<and> jsRem (step + 1) moatFrequency = 0
                         then ''water'' else ''tunnel'');
             prev = cur;
             locationId = showNat (nat tunnel) @ '','' @ showNat (nat step);
             (cur1, s1) = newPlace (typeName @ ''['' @ locationId @ '']'')
                             (typeName = ''water'') (Some prev) None s;
             s2 = Place_setEntrance prev cur1 s1
         in AntColony_steps tunnel tunnelLength moatFrequency (step + 1) cur1 (row @ [cur1]) s2)
      else (cur, row, s))"
  by pat_completeness auto
termination
  by (relation "measure (\<lambda>(tunnel, tunnelLength, moatFrequency, step, cur, row, s).
                   nat (tunnelLength - step))") auto

function AntColony_tunnels ::
  "int \<Rightarrow> int \<Rightarrow> int \<Rightarrow> int \<Rightarrow> place_ref \<Rightarrow> place_ref list list \<Rightarrow> place_ref list \<Rightarrow> store
     \<Rightarrow> place_ref list list \<times> place_ref list \<times> store" where
  "AntColony_tunnels numTunnels tunnelLength moatFrequency tunnel queen plcs entrs s =
     (if tunnel < numTunnels then
        (let (cur, row, s1) = AntColony_steps tunnel tunnelLength moatFrequency 0 queen [] s
         in AntColony_tunnels numTunnels tunnelLength moatFrequency (tunnel + 1) queen
              (plcs @ [row]) (entrs @ [cur]) s1)
      else (plcs, entrs, s))"
  by pat_completeness auto
termination
  by (relation "measure (\<lambda>(numTunnels, tunnelLength, moatFrequency, tunnel, queen, plcs, entrs, s).
                   nat (numTunnels - tunnel))") auto

definition newAntColony :: "int \<Rightarrow> int \<Rightarrow> int \<Rightarrow> int \<Rightarrow> store \<Rightarrow> AntColony \<times> store" where
  "newAntColony startingFood numTunnels tunnelLength moatFrequency s =
     (let (queen, s1) = newPlace ''Ant Queen'' False None None s;
          (plcs, entrs, s2) = AntColony_tunnels numTunnels tunnelLength moatFrequency 0 queen [] [] s1
      in (\<lparr>food = startingFood, places = plcs, beeEntrances = entrs, queenPlace = queen,
           boosts = [''FlyingLeaf'' \<mapsto> JSNumber 1, ''StickyLeaf'' \<mapsto> JSNumber 1,
                     ''IcyLeaf'' \<mapsto> JSNumber 1, ''BugSpray'' \<mapsto> JSNumber 0]\<rparr>,
          s2))"

definition AntColony_getFood :: "AntColony \<Rightarrow> int" where
  "AntColony_getFood c = food c"

definition AntColony_increaseFood :: "int \<Rightarrow> AntColony \<Rightarrow> AntColony" where
  "AntColony_increaseFood amount c = c\<lparr>food := food c + amount\<rparr>"

definition AntColony_queenHasBees :: "AntColony \<Rightarrow> store \<Rightarrow> bool" where
  "AntColony_queenHasBees c s = (length (Place_getBees (queenPlace c) s) > 0)"

definition AntColony_getBoosts :: "AntColony \<Rightarrow> (string \<rightharpoonup> jsvalue)" where
  "AntColony_getBoosts c = boosts c"

text \<open>
  \<^verbatim>\<open>this.boosts[boost]\<close>: the own property if there is one, else what the object inherits,
  else \<^verbatim>\<open>undefined\<close>. Which names every object inherits is fixed by the language, not by this
  program: it is the parameter \<open>inherited\<close>. The values inherited are functions and objects;
  compared with a number they give \<^verbatim>\<open>NaN\<close>, for which \<^verbatim>\<open>< 1\<close> is false.
\<close>

definition boostsAt :: "(string \<Rightarrow> bool) \<Rightarrow> AntColony \<Rightarrow> string \<Rightarrow> jsvalue option" where
  "boostsAt inherited c b =
     (case boosts c b of
        Some v \<Rightarrow> Some v
      | None \<Rightarrow> if inherited b then Some JSOther else None)"

fun lessThanOne :: "jsvalue \<Rightarrow> bool" where
  "lessThanOne (JSNumber n) = (n < 1)"
| "lessThanOne JSOther = False"

text \<open>
  \<^verbatim>\<open>deployAnt\<close> and \<^verbatim>\<open>applyBoost\<close> return the reason of a failure, or \<^verbatim>\<open>undefined\<close> (\<open>None\<close>)
  on success; the model returns with it the colony and the store after the call.
\<close>

definition AntColony_deployAnt ::
  "ant_ref \<Rightarrow> place_ref \<Rightarrow> AntColony \<Rightarrow> store \<Rightarrow> string option \<times> AntColony \<times> store" where
  "AntColony_deployAnt a p c s =
     (if food c \<ge> Ant_getFoodCost a s then
        (let (success, s1) = Place_addAnt a p s in
         if success then (None, c\<lparr>food := food c - Ant_getFoodCost a s1\<rparr>, s1)
         else (Some ''tunnel already occupied'', c, s1))
      else (Some ''not enough food'', c, s))"

definition AntColony_removeAnt :: "place_ref \<Rightarrow> store \<Rightarrow> store" where
  "AntColony_removeAnt p s = snd (Place_removeAnt p s)"

definition AntColony_applyBoost ::
  "(string \<Rightarrow> bool) \<Rightarrow> string \<Rightarrow> place_ref \<Rightarrow> AntColony \<Rightarrow> store
     \<Rightarrow> string option \<times> AntColony \<times> store" where
  "AntColony_applyBoost inherited b p c s =
     (if boostsAt inherited c b = None \<or> lessThanOne (the (boostsAt inherited c b))
      then (Some ''no such boost'', c, s)
      else (case Place_getAnt p s of
              None \<Rightarrow> (Some ''no Ant at location'', c, s)
            | Some a \<Rightarrow> (None, c, Ant_setBoost a b s)))"

definition AntColony_getAllAnts :: "AntColony \<Rightarrow> store \<Rightarrow> ant_ref list" where
  "AntColony_getAllAnts c s =
     foldl (\<lambda>ants row.
        foldl (\<lambda>ants p. if Place_getAnt p s \<noteq> None then ants @ [the (Place_getAnt p s)] else ants)
          ants row) [] (places c)"

definition AntColony_getAllBees :: "AntColony \<Rightarrow> store \<Rightarrow> bee_ref list" where
  "AntColony_getAllBees c s =
     foldl (\<lambda>bs row. foldl (\<lambda>bs p. bs @ Place_getBees p s) bs row) [] (places c)"

definition AntColony_placesAct :: "AntColony \<Rightarrow> store \<Rightarrow> store" where
  "AntColony_placesAct c s = foldl (\<lambda>s row. foldl (\<lambda>s p. Place_act p s) s row) s (places c)"

text \<open>
  The turn actions of the insects (\<^verbatim>\<open>Ant.act(colony)\<close>, \<^verbatim>\<open>Bee.act()\<close>), the guard's
  \<^verbatim>\<open>getGuarded()\<close> and the food costs that the defender constructors set are defined in
  \<^verbatim>\<open>ants.ts\<close>, which is not part of the sources at hand: they are parameters of the model.
  An action may change the colony (an ant is handed it) and the objects in the store, and
  may raise; a raise comes with the colony and the store as the action left them.
\<close>

record ants_ts =
  Ant_act :: "ant_ref \<Rightarrow> AntColony \<times> store \<Rightarrow> error \<times> AntColony \<times> store + AntColony \<times> store"
  Bee_act :: "bee_ref \<Rightarrow> store \<Rightarrow> error \<times> store + store"
  GuardAnt_getGuarded :: "ant_ref \<Rightarrow> store \<Rightarrow> ant_ref option"
  costOf :: "ant_class \<Rightarrow> int"

fun antsAct_forEach ::
  "ants_ts \<Rightarrow> ant_ref list \<Rightarrow> AntColony \<times> store
     \<Rightarrow> error \<times> AntColony \<times> store + AntColony \<times> store" where
  "antsAct_forEach env [] cs = Inr cs"
| "antsAct_forEach env (a # rest) cs =
     (case (if instanceofGuardAnt a (snd cs) then
              (case GuardAnt_getGuarded env a (snd cs) of
                 Some guarded \<Rightarrow> Ant_act env guarded cs
               | None \<Rightarrow> Inr cs)
            else Inr cs) of
        Inl e \<Rightarrow> Inl e
      | Inr cs1 \<Rightarrow>
          (case Ant_act env a cs1 of
             Inl e \<Rightarrow> Inl e
           | Inr cs2 \<Rightarrow> antsAct_forEach env rest cs2))"

definition AntColony_antsAct ::
  "ants_ts \<Rightarrow> AntColony \<Rightarrow> store \<Rightarrow> error \<times> AntColony \<times> store + AntColony \<times> store" where
  "AntColony_antsAct env c s = antsAct_forEach env (AntColony_getAllAnts c s) (c, s)"

fun beesAct_forEach :: "ants_ts \<Rightarrow> bee_ref list \<Rightarrow> store \<Rightarrow> error \<times> store + store" where
  "beesAct_forEach env [] s = Inr s"
| "beesAct_forEach env (b # rest) s =
     (case Bee_act env b s of Inl e \<Rightarrow> Inl e | Inr s1 \<Rightarrow> beesAct_forEach env rest s1)"

definition AntColony_beesAct ::
  "ants_ts \<Rightarrow> AntColony \<Rightarrow> store \<Rightarrow> error \<times> store + store" where
  "AntColony_beesAct env c s = beesAct_forEach env (AntColony_getAllBees c s) s"

section \<open>AntGame\<close>

record AntGame =
  colony :: AntColony
  hive :: Hive
  turn :: int

definition newAntGame :: "AntColony \<Rightarrow> Hive \<Rightarrow> AntGame" where
  "newAntGame c h = \<lparr>colony = c, hive = h, turn = 0\<rparr>"

definition AntGame_getTurn :: "AntGame \<Rightarrow> int" where
  "AntGame_getTurn g = turn g"

text \<open>
  \<^verbatim>\<open>takeTurn\<close>: the four calls in the order of the source, then \<^verbatim>\<open>this.turn++\<close>. An
  exception raised by a call leaves the method at once: the result is \<open>Inl\<close> of the error,
  the game and the store as they are at that point (the colony as the ants left it, the
  turn counter not yet touched). The two \<^verbatim>\<open>console.log\<close> calls have no effect on the state.
\<close>

definition AntGame_takeTurn ::
  "ants_ts \<Rightarrow> (nat \<Rightarrow> real) \<Rightarrow> AntGame \<Rightarrow> store
     \<Rightarrow> error \<times> AntGame \<times> store + AntGame \<times> store" where
  "AntGame_takeTurn env rnd g s =
     (case AntColony_antsAct env (colony g) s of
        Inl (e, c1, s1) \<Rightarrow> Inl (e, g\<lparr>colony := c1\<rparr>, s1)
      | Inr (c1, s1) \<Rightarrow>
          (case AntColony_beesAct env c1 s1 of
             Inl (e, s2) \<Rightarrow> Inl (e, g\<lparr>colony := c1\<rparr>, s2)
           | Inr s2 \<Rightarrow>
               (let s3 = AntColony_placesAct c1 s2 in
                case Hive_invade rnd (hive g) c1 (turn g) s3 of
                  Inl (e, s4) \<Rightarrow> Inl (e, g\<lparr>colony := c1\<rparr>, s4)
                | Inr (wave, s4) \<Rightarrow> Inr (g\<lparr>colony := c1, turn := turn g + 1\<rparr>, s4))))"

text \<open>\<^verbatim>\<open>gameIsWon\<close>: \<open>Some False\<close> is lost, \<open>Some True\<close> is won, \<open>None\<close> is \<^verbatim>\<open>undefined\<close>.\<close>

definition AntGame_gameIsWon :: "AntGame \<Rightarrow> store \<Rightarrow> bool option" where
  "AntGame_gameIsWon g s =
     (if AntColony_queenHasBees (colony g) s then Some False
      else if length (AntColony_getAllBees (colony g) s)
                + length (Place_getBees (hiveRef (hive g)) s) = 0 then Some True
      else None)"


text \<open>
  The three commands take the place as a coordinate string. \<^verbatim>\<open>split(',')\<close> cuts it at the
  commas; the pieces are then used as property names of the grid and of the row. A name is
  an element's only when it is the canonical decimal text of an index.
\<close>

fun splitComma :: "string \<Rightarrow> string list" where
  "splitComma [] = [[]]"
| "splitComma (ch # cs) =
     (if ch = CHR '','' then [] # splitComma cs
      else (case splitComma cs of [] \<Rightarrow> [[ch]] | w # ws \<Rightarrow> (ch # w) # ws))"

definition isDigit :: "char \<Rightarrow> bool" where
  "isDigit ch = (ch \<in> set ''0123456789'')"

definition digitValue :: "char \<Rightarrow> nat" where
  "digitValue ch = (of_char ch :: nat) - 48"

definition arrayIndex :: "string \<Rightarrow> nat option" where
  "arrayIndex k =
     (if k \<noteq> [] \<and> list_all isDigit k \<and> (k = ''0'' \<or> hd k \<noteq> CHR ''0'')
      then Some (foldl (\<lambda>n ch. 10 * n + digitValue ch) 0 k) else None)"

definition arrayGet :: "'a list \<Rightarrow> string option \<Rightarrow> 'a option" where
  "arrayGet xs key =
     (case key of
        None \<Rightarrow> None
      | Some k \<Rightarrow> (case arrayIndex k of
                     None \<Rightarrow> None
                   | Some i \<Rightarrow> if i < length xs then Some (xs ! i) else None))"

text \<open>
  \<^verbatim>\<open>this.colony.getPlaces()[coords[0]][coords[1]]\<close>. Under an index the grid holds a row, or
  nothing beyond its length, and reading a property of \<^verbatim>\<open>undefined\<close> raises. Under a name that
  is no index the grid answers what arrays have by the language (\<^verbatim>\<open>length\<close>, the inherited
  methods) or nothing; whether the second read then raises (it does on \<^verbatim>\<open>undefined\<close>) is the
  parameter \<open>raises\<close>, given the two names, and when it does not raise the value read is no
  place. A row answers a place under an index within its length and otherwise a value that is
  no place (\<^verbatim>\<open>undefined\<close>, its length, a method). The result \<open>Inr None\<close> is any value that is no
  place: a method call on it raises, whichever it is.
\<close>

definition lookupPlace ::
  "(string \<Rightarrow> string option \<Rightarrow> bool) \<Rightarrow> AntColony \<Rightarrow> string \<Rightarrow> error + place_ref option" where
  "lookupPlace raises c placeCoordinates =
     (let coords = splitComma placeCoordinates;
          second = (if 1 < length coords then Some (coords ! 1) else None)
      in case arrayIndex (hd coords) of
           Some i \<Rightarrow>
             if i < length (AntColony_getPlaces c)
             then Inr (arrayGet (AntColony_getPlaces c ! i) second)
             else Inl TypeError
         | None \<Rightarrow> if raises (hd coords) second then Inl TypeError else Inr None)"

definition toLowerCase :: "string \<Rightarrow> string" where
  "toLowerCase str =
     map (\<lambda>ch. if 65 \<le> (of_char ch :: nat) \<and> (of_char ch :: nat) \<le> 90
                then char_of ((of_char ch :: nat) + 32) else ch) str"

text \<open>
  \<^verbatim>\<open>new GrowerAnt()\<close> and the other constructors: a fresh defender of the class, with the
  food cost of the class, no boost and no place.
\<close>

definition newAnt :: "ants_ts \<Rightarrow> ant_class \<Rightarrow> store \<Rightarrow> ant_ref \<times> store" where
  "newAnt env cls s =
     (nextAnt s,
      s\<lparr>antAt := (antAt s)(nextAnt s :=
           \<lparr>antClass = cls, foodCost = costOf env cls, boost = None, antPlace = None\<rparr>),
        nextAnt := Suc (nextAnt s)\<rparr>)"

definition antClassNamed :: "string \<Rightarrow> ant_class option" where
  "antClassNamed nm =
     (if nm = ''grower'' then Some GrowerAnt
      else if nm = ''thrower'' then Some ThrowerAnt
      else if nm = ''eater'' then Some EaterAnt
      else if nm = ''scuba'' then Some ScubaAnt
      else if nm = ''guard'' then Some GuardAnt
      else None)"

text \<open>
  The \<^verbatim>\<open>try\<close> blocks of the commands turn every exception into \<open>''illegal location''\<close>. A
  method call on a value that is no place raises at the first use of the place: in
  \<^verbatim>\<open>AntColony.deployAnt\<close> after the food test, in \<^verbatim>\<open>AntColony.applyBoost\<close> after the test of
  the boost count.
\<close>

definition AntGame_deployAnt ::
  "ants_ts \<Rightarrow> (string \<Rightarrow> string option \<Rightarrow> bool) \<Rightarrow> string \<Rightarrow> string \<Rightarrow> AntGame \<Rightarrow> store
     \<Rightarrow> string option \<times> AntGame \<times> store" where
  "AntGame_deployAnt env raises antType placeCoordinates g s =
     (case antClassNamed (toLowerCase antType) of
        None \<Rightarrow> (Some ''unknown ant type'', g, s)
      | Some cls \<Rightarrow>
          (let (a, s1) = newAnt env cls s in
           case lookupPlace raises (colony g) placeCoordinates of
             Inl e \<Rightarrow> (Some ''illegal location'', g, s1)
           | Inr None \<Rightarrow>
               (if food (colony g) \<ge> Ant_getFoodCost a s1
                then (Some ''illegal location'', g, s1)
                else (Some ''not enough food'', g, s1))
           | Inr (Some p) \<Rightarrow>
               (let (r, c1, s2) = AntColony_deployAnt a p (colony g) s1
                in (r, g\<lparr>colony := c1\<rparr>, s2))))"

definition AntGame_removeAnt ::
  "(string \<Rightarrow> string option \<Rightarrow> bool) \<Rightarrow> string \<Rightarrow> AntGame \<Rightarrow> store
     \<Rightarrow> string option \<times> AntGame \<times> store" where
  "AntGame_removeAnt raises placeCoordinates g s =
     (case lookupPlace raises (colony g) placeCoordinates of
        Inl e \<Rightarrow> (Some ''illegal location'', g, s)
      | Inr None \<Rightarrow> (Some ''illegal location'', g, s)
      | Inr (Some p) \<Rightarrow> (None, g, snd (Place_removeAnt p s)))"

definition AntGame_boostAnt ::
  "(string \<Rightarrow> bool) \<Rightarrow> (string \<Rightarrow> string option \<Rightarrow> bool) \<Rightarrow> string \<Rightarrow> string \<Rightarrow> AntGame \<Rightarrow> store
     \<Rightarrow> string option \<times> AntGame \<times> store" where
  "AntGame_boostAnt inherited raises boostType placeCoordinates g s =
     (case lookupPlace raises (colony g) placeCoordinates of
        Inl e \<Rightarrow> (Some ''illegal location'', g, s)
      | Inr None \<Rightarrow>
          (if boostsAt inherited (colony g) boostType = None
              \<or> lessThanOne (the (boostsAt inherited (colony g) boostType))
           then (Some ''no such boost'', g, s)
           else (Some ''illegal location'', g, s))
      | Inr (Some p) \<Rightarrow>
          (let (r, c1, s1) = AntColony_applyBoost inherited boostType p (colony g) s
           in (r, g\<lparr>colony := c1\<rparr>, s1)))"

text \<open>A run of \<open>n\<close> turns, stopping at the first one that raises.\<close>

fun takeTurns ::
  "ants_ts \<Rightarrow> (nat \<Rightarrow> real) \<Rightarrow> nat \<Rightarrow> AntGame \<Rightarrow> store
     \<Rightarrow> error \<times> AntGame \<times> store + AntGame \<times> store" where
  "takeTurns env rnd 0 g s = Inr (g, s)"
| "takeTurns env rnd (Suc n) g s =
     (case AntGame_takeTurn env rnd g s of
        Inl e \<Rightarrow> Inl e
      | Inr (g1, s1) \<Rightarrow> takeTurns env rnd n g1 s1)"

section \<open>Notions used in the statements\<close>

text \<open>
  The defenders that a run of \<^verbatim>\<open>addAnt\<close> calls accepted: those of the guard class
  (\<open>g = True\<close>) or of the other classes (\<open>g = False\<close>) whose call returned \<^verbatim>\<open>true\<close>.
\<close>

definition accepted :: "store \<Rightarrow> bool \<Rightarrow> ant_ref list \<Rightarrow> bool list \<Rightarrow> ant_ref list" where
  "accepted s g as oks =
     map fst (filter (\<lambda>(a, ok). ok \<and> (antClass (antAt s a) = GuardAnt) = g) (zip as oks))"

text \<open>The number of invaders in the locations of the colony's grid and in the hive.\<close>

definition invaderCount :: "AntGame \<Rightarrow> store \<Rightarrow> nat" where
  "invaderCount g s =
     (\<Sum>row\<leftarrow>places (colony g). \<Sum>p\<leftarrow>row. length (bees (placeAt s p)))
       + length (bees (placeAt s (hiveRef (hive g))))"

text \<open>A source of random numbers returns numbers in the interval from 0 (included) to 1.\<close>

definition randomSource :: "(nat \<Rightarrow> real) \<Rightarrow> bool" where
  "randomSource rnd = (\<forall>k. 0 \<le> rnd k \<and> rnd k < 1)"

section \<open>A small game, for concrete runs\<close>

definition emptyStore :: store where
  "emptyStore =
     \<lparr>placeAt = (\<lambda>r. \<lparr>name = [], water = False, exit = None, entrance = None,
                       ant = None, guard = None, bees = []\<rparr>),
      antAt = (\<lambda>r. \<lparr>antClass = GrowerAnt, foodCost = 0, boost = None, antPlace = None\<rparr>),
      beeAt = (\<lambda>r. \<lparr>armor = 0, damage = 0, beePlace = None\<rparr>),
      nextPlace = 0, nextAnt = 0, nextBee = 0, randomCalls = 0\<rparr>"

text \<open>
  Collaborators whose insects do nothing on their turn, with food costs chosen for the
  runs, and a random source that always returns 0.
\<close>

definition idleInsects :: ants_ts where
  "idleInsects =
     \<lparr>Ant_act = (\<lambda>a cs. Inr cs), Bee_act = (\<lambda>b s. Inr s),
      GuardAnt_getGuarded = (\<lambda>a s. case antPlace (antAt s a) of
                                      None \<Rightarrow> None | Some p \<Rightarrow> Place_getGuardedAnt p s),
      costOf = (\<lambda>cls. if cls = GuardAnt then 4 else 2)\<rparr>"


definition zeroRandom :: "nat \<Rightarrow> real" where
  "zeroRandom k = 0"

text \<open>
  A hive (place 0) and a colony with one tunnel of two steps and a moat at every second
  step: the queen's place is 1, the grid is \<open>[[2, 3]]\<close> and place 3 is water. Four
  defenders are created: 0 a thrower, 1 a guard, 2 a scuba ant, 3 a second guard.
\<close>

definition demoHive :: "Hive \<times> store" where
  "demoHive = newHive 3 1 emptyStore"

definition demoColony :: "AntColony \<times> store" where
  "demoColony = newAntColony 10 1 2 2 (snd demoHive)"

definition demoAnts :: store where
  "demoAnts =
     snd (newAnt idleInsects GuardAnt
       (snd (newAnt idleInsects ScubaAnt
         (snd (newAnt idleInsects GuardAnt
           (snd (newAnt idleInsects ThrowerAnt (snd demoColony))))))))"

text \<open>The thrower and the first guard at place 2, the scuba ant and the second guard at place 3.\<close>

definition demoDeployed :: store where
  "demoDeployed =
     snd (Place_addAnt 3 3 (snd (Place_addAnt 2 3
       (snd (Place_addAnt 1 2 (snd (Place_addAnt 0 2 demoAnts)))))))"

text \<open>A wave of two bees scheduled for turn 0, and the game over the colony and the hive.\<close>

definition demoWave :: "Hive \<times> store" where
  "demoWave = Hive_addWave 0 2 (fst demoHive) demoDeployed"

definition demoGame :: AntGame where
  "demoGame = newAntGame (fst demoColony) (fst demoWave)"

text \<open>The same hive and wave with a colony that has no tunnel.\<close>

definition noTunnels :: "AntColony \<times> store" where
  "noTunnels = newAntColony 10 0 2 0 (snd (Hive_addWave 0 2 (fst demoHive) (snd demoHive)))"

definition noTunnelsGame :: AntGame where
  "noTunnelsGame =
     newAntGame (fst noTunnels) (fst (Hive_addWave 0 2 (fst demoHive) (snd demoHive)))"

text \<open>The deployed game with bee 0 at place 3 and bee 1 at place 2.\<close>

definition demoBees :: store where
  "demoBees = Place_addBee 1 2 (Place_addBee 0 3 demoDeployed)"

text \<open>The store after one pass through the body of the constructor's inner loop.\<close>

definition stepStore :: "int \<Rightarrow> int \<Rightarrow> int \<Rightarrow> place_ref \<Rightarrow> store \<Rightarrow> store" where
  "stepStore tunnel moatFrequency step cur s =
     Place_setEntrance cur (nextPlace s)
       (snd (newPlace
          ((if moatFrequency \<noteq> 0 \<and> jsRem (step + 1) moatFrequency = 0 then ''water'' else ''tunnel'')
             @ ''['' @ (showNat (nat tunnel) @ '','' @ showNat (nat step)) @ '']'')
          ((if moatFrequency \<noteq> 0 \<and> jsRem (step + 1) moatFrequency = 0 then ''water'' else ''tunnel'')
             = ''water'')
          (Some cur) None s))"

text \<open>
  The store after one pass through the body of the loop of \<^verbatim>\<open>invade\<close>, for a bee of the wave,
  when the entrance drawn exists.
\<close>

definition invadeStep :: "(nat \<Rightarrow> real) \<Rightarrow> place_ref \<Rightarrow> place_ref list \<Rightarrow> bee_ref \<Rightarrow> store \<Rightarrow> store" where
  "invadeStep rnd hr entrances b s =
     Place_addBee b
       (entrances ! nat \<lfloor>fst (Math_random rnd (Place_removeBee b hr s)) * real (length entrances)\<rfloor>)
       (snd (Math_random rnd (Place_removeBee b hr s)))"

declare getClosestBee_loop.simps [simp del]
declare addWave_loop.simps [simp del]
declare AntColony_steps.simps [simp del]
declare AntColony_tunnels.simps [simp del]
declare showNat.simps [simp del]


section \<open>The objects of the small game\<close>

lemma demoColony_fields:
  "places (fst demoColony) = [[2, 3]]" "queenPlace (fst demoColony) = 1"
  "beeEntrances (fst demoColony) = [3]" "food (fst demoColony) = 10"
  "boosts (fst demoColony) ''BugSpray'' = Some (JSNumber 0)"
  "boosts (fst demoColony) ''FlyingLeaf'' = Some (JSNumber 1)"
  "boosts (fst demoColony) ''toString'' = None"
  by code_simp+

lemma demoAnts_places:
  "placeAt demoAnts 0 = \<lparr>name = ''Hive'', water = False, exit = None, entrance = None,
                          ant = None, guard = None, bees = []\<rparr>"
  "placeAt demoAnts 1 = \<lparr>name = ''Ant Queen'', water = False, exit = None, entrance = Some 2,
                          ant = None, guard = None, bees = []\<rparr>"
  "placeAt demoAnts 2 = \<lparr>name = ''tunnel[0,0]'', water = False, exit = Some 1, entrance = Some 3,
                          ant = None, guard = None, bees = []\<rparr>"
  "placeAt demoAnts 3 = \<lparr>name = ''water[0,1]'', water = True, exit = Some 2, entrance = None,
                          ant = None, guard = None, bees = []\<rparr>"
  by code_simp+

lemma demoAnts_ants:
  "antAt demoAnts 0 = \<lparr>antClass = ThrowerAnt, foodCost = 2, boost = None, antPlace = None\<rparr>"
  "antAt demoAnts 1 = \<lparr>antClass = GuardAnt, foodCost = 4, boost = None, antPlace = None\<rparr>"
  "antAt demoAnts 2 = \<lparr>antClass = ScubaAnt, foodCost = 2, boost = None, antPlace = None\<rparr>"
  "antAt demoAnts 3 = \<lparr>antClass = GuardAnt, foodCost = 4, boost = None, antPlace = None\<rparr>"
  by code_simp+

lemma demoDeployed_places:
  "placeAt demoDeployed 0 = \<lparr>name = ''Hive'', water = False, exit = None, entrance = None,
                              ant = None, guard = None, bees = []\<rparr>"
  "placeAt demoDeployed 1 = \<lparr>name = ''Ant Queen'', water = False, exit = None,
                              entrance = Some 2, ant = None, guard = None, bees = []\<rparr>"
  "placeAt demoDeployed 2 = \<lparr>name = ''tunnel[0,0]'', water = False, exit = Some 1,
                              entrance = Some 3, ant = Some 0, guard = Some 1, bees = []\<rparr>"
  "placeAt demoDeployed 3 = \<lparr>name = ''water[0,1]'', water = True, exit = Some 2,
                              entrance = None, ant = Some 2, guard = Some 3, bees = []\<rparr>"
  by code_simp+

lemma demoDeployed_ants:
  "antAt demoDeployed 0 = \<lparr>antClass = ThrowerAnt, foodCost = 2, boost = None, antPlace = Some 2\<rparr>"
  "antAt demoDeployed 1 = \<lparr>antClass = GuardAnt, foodCost = 4, boost = None, antPlace = Some 2\<rparr>"
  "antAt demoDeployed 2 = \<lparr>antClass = ScubaAnt, foodCost = 2, boost = None, antPlace = Some 3\<rparr>"
  "antAt demoDeployed 3 = \<lparr>antClass = GuardAnt, foodCost = 4, boost = None, antPlace = Some 3\<rparr>"
  by code_simp+

lemma demoHive_ref: "hiveRef (fst demoHive) = 0"
  by code_simp

lemma demoGame_fields:
  "colony demoGame = fst demoColony" "hiveRef (hive demoGame) = 0" "turn demoGame = 0"
  by (simp_all add: demoGame_def newAntGame_def demoWave_def Hive_addWave_def split_beta
        demoHive_ref)

lemmas bee_defs = Place_addBee_def Place_removeBee_def updatePlace_def Bee_setPlace_def

lemma demoBees_places:
  "placeAt demoBees 0 = \<lparr>name = ''Hive'', water = False, exit = None, entrance = None,
                              ant = None, guard = None, bees = []\<rparr>"
  "placeAt demoBees 1 = \<lparr>name = ''Ant Queen'', water = False, exit = None,
                              entrance = Some 2, ant = None, guard = None, bees = []\<rparr>"
  "placeAt demoBees 2 = \<lparr>name = ''tunnel[0,0]'', water = False, exit = Some 1,
                              entrance = Some 3, ant = Some 0, guard = Some 1, bees = [1]\<rparr>"
  "placeAt demoBees 3 = \<lparr>name = ''water[0,1]'', water = True, exit = Some 2,
                              entrance = None, ant = Some 2, guard = Some 3, bees = [0]\<rparr>"
  using demoDeployed_places by (simp_all add: demoBees_def bee_defs)

lemma zeroRandom_source: "randomSource zeroRandom"
  by (simp add: randomSource_def zeroRandom_def)

lemma demoDeployed_nextBee: "nextBee demoDeployed = 0"
  by code_simp

lemma demoHive_waves: "waves (fst demoHive) = Map.empty"
  by (simp add: demoHive_def newHive_def split_beta)

lemma idle_antsAct: "antsAct_forEach idleInsects as cs = Inr cs"
  by (induction as arbitrary: cs) (auto simp: idleInsects_def split: option.splits)

lemma idle_beesAct: "beesAct_forEach idleInsects bs s = Inr s"
  by (induction bs arbitrary: s) (auto simp: idleInsects_def)

lemma idle_acts:
  "AntColony_antsAct idleInsects c s = Inr (c, s)" "AntColony_beesAct idleInsects c s = Inr s"
  by (simp_all add: AntColony_antsAct_def AntColony_beesAct_def idle_antsAct idle_beesAct)

section \<open>Places: the two defender slots\<close>

lemmas slot_defs = Place_addAnt_def Place_removeAnt_def updatePlace_def Ant_setPlace_def
  instanceofGuardAnt_def instanceofScubaAnt_def

lemma addAnt_antClass:
  "antClass (antAt (snd (Place_addAnt a p s)) x) = antClass (antAt s x)"
  by (simp add: slot_defs)

lemma addAnt_calls_length: "length (fst (addAnt_calls as p s)) = length as"
  by (induction as arbitrary: s) (auto simp: split_beta Let_def)

lemma addAnt_keeps_ant:
  "ant (placeAt s p) = Some x \<Longrightarrow> ant (placeAt (snd (Place_addAnt a p s)) p) = Some x"
  by (simp add: slot_defs)

lemma addAnt_keeps_guard:
  "guard (placeAt s p) = Some x \<Longrightarrow> guard (placeAt (snd (Place_addAnt a p s)) p) = Some x"
  by (simp add: slot_defs)

lemma addAnt_calls_keep_ant:
  "ant (placeAt s p) = Some x \<Longrightarrow> ant (placeAt (snd (addAnt_calls as p s)) p) = Some x"
  by (induction as arbitrary: s) (auto simp: split_beta Let_def addAnt_keeps_ant)

lemma addAnt_calls_keep_guard:
  "guard (placeAt s p) = Some x \<Longrightarrow> guard (placeAt (snd (addAnt_calls as p s)) p) = Some x"
  by (induction as arbitrary: s) (auto simp: split_beta Let_def addAnt_keeps_guard)

lemma accepted_Cons:
  "accepted s g (a # as) (ok # oks) =
     (if ok \<and> (antClass (antAt s a) = GuardAnt) = g then [a] else []) @ accepted s g as oks"
  by (simp add: accepted_def)

lemma accepted_cong_store:
  "(\<And>x. antClass (antAt s x) = antClass (antAt s' x)) \<Longrightarrow>
     accepted s g as oks = accepted s' g as oks"
  by (simp add: accepted_def)

text \<open>
  One call fills a slot only if it was empty, so a run of calls fills each slot at most once,
  and never if the slot was taken at the start.
\<close>

lemma addAnt_calls_regular:
  "length (accepted s False as (fst (addAnt_calls as p s)))
     \<le> (if ant (placeAt s p) = None then 1 else 0)"
proof (induction as arbitrary: s)
  case Nil
  then show ?case by (simp add: accepted_def)
next
  case (Cons a as)
  obtain ok s1 where r: "Place_addAnt a p s = (ok, s1)"
    by (cases "Place_addAnt a p s")
  have cls: "\<And>x. antClass (antAt s1 x) = antClass (antAt s x)"
    using addAnt_antClass [of a p s] r by simp
  have acc: "accepted s False as (fst (addAnt_calls as p s1))
               = accepted s1 False as (fst (addAnt_calls as p s1))"
    by (rule accepted_cong_store) (simp add: cls)
  have ih: "length (accepted s1 False as (fst (addAnt_calls as p s1)))
              \<le> (if ant (placeAt s1 p) = None then 1 else 0)"
    by (rule Cons.IH)
  have step: "(ok \<and> antClass (antAt s a) \<noteq> GuardAnt \<longrightarrow>
                 ant (placeAt s p) = None \<and> ant (placeAt s1 p) \<noteq> None)
              \<and> (ant (placeAt s p) \<noteq> None \<longrightarrow> ant (placeAt s1 p) \<noteq> None)"
    using r by (auto simp: slot_defs split: if_splits)
  show ?case using ih step
    by (auto simp: r split_beta Let_def accepted_Cons acc split: if_splits)
qed

lemma addAnt_calls_guards:
  "length (accepted s True as (fst (addAnt_calls as p s)))
     \<le> (if guard (placeAt s p) = None then 1 else 0)"
proof (induction as arbitrary: s)
  case Nil
  then show ?case by (simp add: accepted_def)
next
  case (Cons a as)
  obtain ok s1 where r: "Place_addAnt a p s = (ok, s1)"
    by (cases "Place_addAnt a p s")
  have cls: "\<And>x. antClass (antAt s1 x) = antClass (antAt s x)"
    using addAnt_antClass [of a p s] r by simp
  have acc: "accepted s True as (fst (addAnt_calls as p s1))
               = accepted s1 True as (fst (addAnt_calls as p s1))"
    by (rule accepted_cong_store) (simp add: cls)
  have ih: "length (accepted s1 True as (fst (addAnt_calls as p s1)))
              \<le> (if guard (placeAt s1 p) = None then 1 else 0)"
    by (rule Cons.IH)
  have step: "(ok \<and> antClass (antAt s a) = GuardAnt \<longrightarrow>
                 guard (placeAt s p) = None \<and> guard (placeAt s1 p) \<noteq> None)
              \<and> (guard (placeAt s p) \<noteq> None \<longrightarrow> guard (placeAt s1 p) \<noteq> None)"
    using r by (auto simp: slot_defs split: if_splits)
  show ?case using ih step
    by (auto simp: r split_beta Let_def accepted_Cons acc split: if_splits)
qed

lemma addAnt_one_call:
  "(fst (Place_addAnt a p s) \<longleftrightarrow> slotFor (antClass (antAt s a)) (placeAt s p) = None)
   \<and> (slotFor (antClass (antAt s a)) (placeAt s p) = None \<longrightarrow>
        slotFor (antClass (antAt s a)) (placeAt (snd (Place_addAnt a p s)) p) = Some a
        \<and> otherSlot (antClass (antAt s a)) (placeAt (snd (Place_addAnt a p s)) p)
            = otherSlot (antClass (antAt s a)) (placeAt s p)
        \<and> antPlace (antAt (snd (Place_addAnt a p s)) a) = Some p)
   \<and> (slotFor (antClass (antAt s a)) (placeAt s p) \<noteq> None \<longrightarrow> snd (Place_addAnt a p s) = s)"
  by (auto simp add: slot_defs slotFor_def otherSlot_def)

text \<open>
  Claim C9. One call of \<^verbatim>\<open>addAnt\<close> returns \<^verbatim>\<open>true\<close> exactly when the slot for the defender's
  class (the guard slot for a guard, the regular slot otherwise) is empty; it then binds the
  defender in that slot and leaves the other slot as it was; when the slot is taken it
  returns \<^verbatim>\<open>false\<close> and changes nothing. Over any run of calls on a place, a defender that
  held a slot at the start still holds it at the end, and the calls accept at most one
  regular defender and at most one guard, none if the slot was taken at the start: a place
  never holds a second defender of a kind, and none is overwritten.
\<close>

theorem addAnt_exclusive:
  "(fst (Place_addAnt a p s) \<longleftrightarrow> slotFor (antClass (antAt s a)) (placeAt s p) = None)
   \<and> (slotFor (antClass (antAt s a)) (placeAt s p) = None \<longrightarrow>
        slotFor (antClass (antAt s a)) (placeAt (snd (Place_addAnt a p s)) p) = Some a
        \<and> otherSlot (antClass (antAt s a)) (placeAt (snd (Place_addAnt a p s)) p)
            = otherSlot (antClass (antAt s a)) (placeAt s p)
        \<and> antPlace (antAt (snd (Place_addAnt a p s)) a) = Some p)
   \<and> (slotFor (antClass (antAt s a)) (placeAt s p) \<noteq> None \<longrightarrow> snd (Place_addAnt a p s) = s)
   \<and> length (fst (addAnt_calls as p s)) = length as
   \<and> (\<forall>x. ant (placeAt s p) = Some x \<longrightarrow> ant (placeAt (snd (addAnt_calls as p s)) p) = Some x)
   \<and> (\<forall>x. guard (placeAt s p) = Some x \<longrightarrow>
          guard (placeAt (snd (addAnt_calls as p s)) p) = Some x)
   \<and> length (accepted s False as (fst (addAnt_calls as p s)))
        \<le> (if ant (placeAt s p) = None then 1 else 0)
   \<and> length (accepted s True as (fst (addAnt_calls as p s)))
        \<le> (if guard (placeAt s p) = None then 1 else 0)"
  using addAnt_one_call [of a p s] addAnt_calls_length [of as p s]
    addAnt_calls_regular [of s as p] addAnt_calls_guards [of s as p]
    addAnt_calls_keep_ant [of s p _ as] addAnt_calls_keep_guard [of s p _ as]
  by blast

text \<open>
  At place 2 of the small game, empty at first, the calls for the thrower, the scuba ant and
  the two guards return true, false, true, false; a further call for the scuba ant on the
  place that then holds the thrower changes nothing.
\<close>

theorem addAnt_exclusive_witness:
  "fst (addAnt_calls [0, 2, 1, 3] 2 demoAnts) = [True, False, True, False]
   \<and> ant (placeAt demoAnts 2) = None \<and> guard (placeAt demoAnts 2) = None
   \<and> length (accepted demoAnts False [0, 2, 1, 3] (fst (addAnt_calls [0, 2, 1, 3] 2 demoAnts))) \<le> 1
   \<and> length (accepted demoAnts True [0, 2, 1, 3] (fst (addAnt_calls [0, 2, 1, 3] 2 demoAnts))) \<le> 1
   \<and> slotFor (antClass (antAt demoDeployed 2)) (placeAt demoDeployed 2) = Some 0
   \<and> snd (Place_addAnt 2 2 demoDeployed) = demoDeployed
   \<and> \<not> fst (Place_addAnt 2 2 demoDeployed)"
proof -
  have e: "ant (placeAt demoAnts 2) = None" "guard (placeAt demoAnts 2) = None"
    by (simp_all add: demoAnts_places)
  have r: "fst (addAnt_calls [0, 2, 1, 3] 2 demoAnts) = [True, False, True, False]"
    using demoAnts_places demoAnts_ants by (simp add: slot_defs Let_def)
  have o: "slotFor (antClass (antAt demoDeployed 2)) (placeAt demoDeployed 2) = Some 0"
    by (simp add: slotFor_def demoDeployed_places demoDeployed_ants)
  show ?thesis
    using addAnt_exclusive [of 2 2 demoDeployed "[0, 2, 1, 3]"]
      addAnt_exclusive [of 0 2 demoAnts "[0, 2, 1, 3]"] e r o
    by simp
qed

text \<open>
  Claim C10. At a place that holds both a guard and a regular defender, \<^verbatim>\<open>removeInsect\<close>
  called with the regular defender empties the guard slot (\<^verbatim>\<open>removeAnt\<close> returns the guard)
  and leaves the regular defender, the argument, in its slot; nothing else in the store
  changes, and the result is the same whichever ant is passed.
\<close>

theorem removeInsect_removes_guard:
  "guard (placeAt s p) = Some g \<Longrightarrow> ant (placeAt s p) = Some a \<Longrightarrow>
     guard (placeAt (Place_removeInsect (AnAnt a) p s) p) = None
     \<and> ant (placeAt (Place_removeInsect (AnAnt a) p s) p) = Some a
     \<and> fst (Place_removeAnt p s) = Some g
     \<and> Place_removeInsect (AnAnt a) p s
         = s\<lparr>placeAt := (placeAt s)(p := (placeAt s p)\<lparr>guard := None\<rparr>)\<rparr>
     \<and> Place_removeInsect (AnAnt a) p s = Place_removeInsect (AnAnt x) p s"
  by (simp add: Place_removeInsect_def slot_defs)

theorem removeInsect_removes_guard_witness:
  "guard (placeAt demoDeployed 2) = Some 1 \<and> ant (placeAt demoDeployed 2) = Some 0
   \<and> guard (placeAt (Place_removeInsect (AnAnt 0) 2 demoDeployed) 2) = None
   \<and> ant (placeAt (Place_removeInsect (AnAnt 0) 2 demoDeployed) 2) = Some 0
   \<and> fst (Place_removeAnt 2 demoDeployed) = Some 1"
proof -
  have g: "guard (placeAt demoDeployed 2) = Some 1" by (simp add: demoDeployed_places)
  have a: "ant (placeAt demoDeployed 2) = Some 0" by (simp add: demoDeployed_places)
  show ?thesis using removeInsect_removes_guard [OF g a] g a by simp
qed

text \<open>
  Claim C6. After \<^verbatim>\<open>act\<close> on a water place the guard slot is empty, and the regular slot
  holds what it held if that is a scuba ant and is empty otherwise; nothing but the two
  slots of the place changes. On a place that is not water \<^verbatim>\<open>act\<close> changes nothing.
\<close>

theorem Place_act_washes:
  "(water (placeAt s p) \<longrightarrow>
      guard (placeAt (Place_act p s) p) = None
      \<and> ant (placeAt (Place_act p s) p)
          = (if instanceofScubaAnt (ant (placeAt s p)) s then ant (placeAt s p) else None)
      \<and> Place_act p s
          = s\<lparr>placeAt := (placeAt s)(p := (placeAt s p)
                \<lparr>ant := (if instanceofScubaAnt (ant (placeAt s p)) s
                          then ant (placeAt s p) else None),
                 guard := None\<rparr>)\<rparr>)
   \<and> (\<not> water (placeAt s p) \<longrightarrow> Place_act p s = s)"
proof (cases "water (placeAt s p)")
  case False
  then show ?thesis by (simp add: Place_act_def)
next
  case True
  have slots: "guard (placeAt (Place_act p s) p) = None
      \<and> ant (placeAt (Place_act p s) p)
          = (if instanceofScubaAnt (ant (placeAt s p)) s then ant (placeAt s p) else None)"
    using True by (auto simp add: Place_act_def slot_defs split: option.splits)
  have frame: "Place_act p s
          = s\<lparr>placeAt := (placeAt s)(p := (placeAt s p)
                \<lparr>ant := (if instanceofScubaAnt (ant (placeAt s p)) s
                          then ant (placeAt s p) else None),
                 guard := None\<rparr>)\<rparr>"
    using True
    by (cases "guard (placeAt s p)"; cases "ant (placeAt s p)")
       (auto simp add: Place_act_def slot_defs fun_eq_iff intro!: store.equality Place.equality)
  show ?thesis using True slots frame by simp
qed

text \<open>
  Place 3 is water and holds the scuba ant under a guard: the guard goes, the scuba ant
  stays. With the thrower put there instead, both go. Place 2 is no water: nothing changes.
\<close>

theorem Place_act_washes_witness:
  "water (placeAt demoDeployed 3)
   \<and> guard (placeAt demoDeployed 3) = Some 3 \<and> ant (placeAt demoDeployed 3) = Some 2
   \<and> guard (placeAt (Place_act 3 demoDeployed) 3) = None
   \<and> ant (placeAt (Place_act 3 demoDeployed) 3) = Some 2
   \<and> water (placeAt (snd (Place_addAnt 0 3 demoAnts)) 3)
   \<and> ant (placeAt (snd (Place_addAnt 0 3 demoAnts)) 3) = Some 0
   \<and> ant (placeAt (Place_act 3 (snd (Place_addAnt 0 3 demoAnts))) 3) = None
   \<and> \<not> water (placeAt demoDeployed 2) \<and> Place_act 2 demoDeployed = demoDeployed"
proof -
  have w: "water (placeAt demoDeployed 3)" "\<not> water (placeAt demoDeployed 2)"
    "guard (placeAt demoDeployed 3) = Some 3" "ant (placeAt demoDeployed 3) = Some 2"
    "instanceofScubaAnt (Some 2) demoDeployed"
    by (simp_all add: demoDeployed_places demoDeployed_ants instanceofScubaAnt_def)
  have v: "water (placeAt (snd (Place_addAnt 0 3 demoAnts)) 3)"
    "ant (placeAt (snd (Place_addAnt 0 3 demoAnts)) 3) = Some 0"
    "\<not> instanceofScubaAnt (Some 0) (snd (Place_addAnt 0 3 demoAnts))"
    by (simp_all add: demoAnts_places demoAnts_ants slot_defs)
  show ?thesis
    using Place_act_washes [of demoDeployed 3] Place_act_washes [of demoDeployed 2]
      Place_act_washes [of "snd (Place_addAnt 0 3 demoAnts)" 3] w v
    by simp
qed


section \<open>The colony: food and boosts\<close>

text \<open>
  Claim C2. \<^verbatim>\<open>deployAnt\<close> fails with \<open>''not enough food''\<close> whenever the food is less than the
  defender's cost, and then neither the colony nor the store changes; when the food
  suffices and the slot for the defender is taken it fails with
  \<open>''tunnel already occupied''\<close>, again with nothing changed; when the food suffices and the
  slot is empty it places the defender, deducts its cost and returns \<^verbatim>\<open>undefined\<close>. Success
  is returned in that case only, and the food of the colony is the same after every failure.
\<close>

theorem deployAnt_food:
  "(food c < Ant_getFoodCost a s \<longrightarrow>
      AntColony_deployAnt a p c s = (Some ''not enough food'', c, s))
   \<and> (Ant_getFoodCost a s \<le> food c \<and> slotFor (antClass (antAt s a)) (placeAt s p) \<noteq> None \<longrightarrow>
        AntColony_deployAnt a p c s = (Some ''tunnel already occupied'', c, s))
   \<and> (Ant_getFoodCost a s \<le> food c \<and> slotFor (antClass (antAt s a)) (placeAt s p) = None \<longrightarrow>
        AntColony_deployAnt a p c s
          = (None, c\<lparr>food := food c - Ant_getFoodCost a s\<rparr>, snd (Place_addAnt a p s))
        \<and> slotFor (antClass (antAt s a)) (placeAt (snd (Place_addAnt a p s)) p) = Some a)
   \<and> (fst (AntColony_deployAnt a p c s) = None \<longleftrightarrow>
        Ant_getFoodCost a s \<le> food c \<and> slotFor (antClass (antAt s a)) (placeAt s p) = None)
   \<and> (fst (AntColony_deployAnt a p c s) \<noteq> None \<longrightarrow>
        food (fst (snd (AntColony_deployAnt a p c s))) = food c)"
  by (auto simp: AntColony_deployAnt_def slot_defs slotFor_def Ant_getFoodCost_def)

text \<open>
  In the small game the thrower costs 2. With 1 food its deployment fails for lack of food;
  with 10 food it succeeds on the empty place 2 and leaves 8; the scuba ant is refused on
  place 2 once the thrower is there, and the food stays 10.
\<close>

theorem deployAnt_food_witness:
  "food ((fst demoColony)\<lparr>food := 1\<rparr>) < Ant_getFoodCost 0 demoAnts
   \<and> AntColony_deployAnt 0 2 ((fst demoColony)\<lparr>food := 1\<rparr>) demoAnts
       = (Some ''not enough food'', (fst demoColony)\<lparr>food := 1\<rparr>, demoAnts)
   \<and> Ant_getFoodCost 0 demoAnts \<le> food (fst demoColony)
   \<and> slotFor (antClass (antAt demoAnts 0)) (placeAt demoAnts 2) = None
   \<and> fst (AntColony_deployAnt 0 2 (fst demoColony) demoAnts) = None
   \<and> food (fst (snd (AntColony_deployAnt 0 2 (fst demoColony) demoAnts))) = 8
   \<and> Ant_getFoodCost 2 demoDeployed \<le> food (fst demoColony)
   \<and> slotFor (antClass (antAt demoDeployed 2)) (placeAt demoDeployed 2) \<noteq> None
   \<and> AntColony_deployAnt 2 2 (fst demoColony) demoDeployed
       = (Some ''tunnel already occupied'', fst demoColony, demoDeployed)"
proof -
  have f: "food (fst demoColony) = 10" "Ant_getFoodCost 0 demoAnts = 2"
    "Ant_getFoodCost 2 demoDeployed = 2"
    by (simp_all add: demoColony_fields Ant_getFoodCost_def demoAnts_ants demoDeployed_ants)
  have e: "slotFor (antClass (antAt demoAnts 0)) (placeAt demoAnts 2) = None"
    by (simp add: slotFor_def demoAnts_places demoAnts_ants)
  have o: "slotFor (antClass (antAt demoDeployed 2)) (placeAt demoDeployed 2) = Some 0"
    by (simp add: slotFor_def demoDeployed_places demoDeployed_ants)
  show ?thesis
    using deployAnt_food [of "(fst demoColony)\<lparr>food := 1\<rparr>" 0 demoAnts 2]
      deployAnt_food [of "fst demoColony" 0 demoAnts 2]
      deployAnt_food [of "fst demoColony" 2 demoDeployed 2] f e o
    by simp
qed





section \<open>The outcome of the game\<close>

lemma foldl_append_acc: "foldl (\<lambda>bs p. bs @ f p) acc row = acc @ concat (map f row)"
  by (induction row arbitrary: acc) auto

lemma foldl_rows_acc:
  "foldl (\<lambda>bs row. foldl (\<lambda>bs p. bs @ f p) bs row) acc rows
     = acc @ concat (map (\<lambda>row. concat (map f row)) rows)"
  by (induction rows arbitrary: acc) (auto simp: foldl_append_acc)

lemma getAllBees_concat:
  "AntColony_getAllBees c s
     = concat (map (\<lambda>row. concat (map (\<lambda>p. bees (placeAt s p)) row)) (places c))"
  by (simp add: AntColony_getAllBees_def foldl_rows_acc Place_getBees_def)

lemma length_getAllBees:
  "length (AntColony_getAllBees c s)
     = (\<Sum>row\<leftarrow>places c. \<Sum>p\<leftarrow>row. length (bees (placeAt s p)))"
  by (simp add: getAllBees_concat length_concat comp_def)

text \<open>
  Claim C4. \<^verbatim>\<open>gameIsWon\<close> returns \<^verbatim>\<open>false\<close> whenever the queen's place holds an invader,
  whatever the rest of the state; it returns \<^verbatim>\<open>true\<close> when the queen's place is empty and the
  number of invaders in the locations of the colony plus the hive is zero; and it returns
  \<^verbatim>\<open>undefined\<close> in the remaining case.
\<close>

theorem gameIsWon_cases:
  "(bees (placeAt s (queenPlace (colony g))) \<noteq> [] \<longrightarrow> AntGame_gameIsWon g s = Some False)
   \<and> (bees (placeAt s (queenPlace (colony g))) = [] \<and> invaderCount g s = 0 \<longrightarrow>
        AntGame_gameIsWon g s = Some True)
   \<and> (bees (placeAt s (queenPlace (colony g))) = [] \<and> invaderCount g s \<noteq> 0 \<longrightarrow>
        AntGame_gameIsWon g s = None)"
  by (simp add: AntGame_gameIsWon_def AntColony_queenHasBees_def Place_getBees_def
        invaderCount_def length_getAllBees)

text \<open>
  In the small game without any bee the game is won; with a bee in the tunnel (place 3) it
  goes on; with a bee at the queen's place (1) it is lost, also when that bee is the only
  one, so that no invader is left in the grid or the hive.
\<close>

theorem gameIsWon_cases_witness:
  "bees (placeAt demoDeployed (queenPlace (colony demoGame))) = []
   \<and> invaderCount demoGame demoDeployed = 0
   \<and> AntGame_gameIsWon demoGame demoDeployed = Some True
   \<and> bees (placeAt (Place_addBee 0 3 demoDeployed) (queenPlace (colony demoGame))) = []
   \<and> invaderCount demoGame (Place_addBee 0 3 demoDeployed) \<noteq> 0
   \<and> AntGame_gameIsWon demoGame (Place_addBee 0 3 demoDeployed) = None
   \<and> bees (placeAt (Place_addBee 0 1 demoDeployed) (queenPlace (colony demoGame))) \<noteq> []
   \<and> invaderCount demoGame (Place_addBee 0 1 demoDeployed) = 0
   \<and> AntGame_gameIsWon demoGame (Place_addBee 0 1 demoDeployed) = Some False"
proof -
  have q: "queenPlace (colony demoGame) = 1" "places (colony demoGame) = [[2, 3]]"
    "hiveRef (hive demoGame) = 0"
    by (simp_all add: demoGame_fields demoColony_fields)
  have w: "bees (placeAt demoDeployed 0) = []" "bees (placeAt demoDeployed 1) = []"
    "bees (placeAt demoDeployed 2) = []" "bees (placeAt demoDeployed 3) = []"
    using demoDeployed_places by simp_all
  have o: "bees (placeAt (Place_addBee 0 3 demoDeployed) 0) = []"
    "bees (placeAt (Place_addBee 0 3 demoDeployed) 1) = []"
    "bees (placeAt (Place_addBee 0 3 demoDeployed) 2) = []"
    "bees (placeAt (Place_addBee 0 3 demoDeployed) 3) = [0]"
    using demoDeployed_places by (simp_all add: bee_defs)
  have l: "bees (placeAt (Place_addBee 0 1 demoDeployed) 0) = []"
    "bees (placeAt (Place_addBee 0 1 demoDeployed) 1) = [0]"
    "bees (placeAt (Place_addBee 0 1 demoDeployed) 2) = []"
    "bees (placeAt (Place_addBee 0 1 demoDeployed) 3) = []"
    using demoDeployed_places by (simp_all add: bee_defs)
  have c: "invaderCount demoGame demoDeployed = 0"
    "invaderCount demoGame (Place_addBee 0 3 demoDeployed) = 1"
    "invaderCount demoGame (Place_addBee 0 1 demoDeployed) = 0"
    using q w o l by (simp_all add: invaderCount_def)
  show ?thesis
    using gameIsWon_cases [of demoDeployed demoGame]
      gameIsWon_cases [of "Place_addBee 0 3 demoDeployed" demoGame]
      gameIsWon_cases [of "Place_addBee 0 1 demoDeployed" demoGame] q w o l c
    by simp
qed

section \<open>The closest bee\<close>

lemma loop_Some_unfold:
  "getClosestBee_loop s maxD minD (Some q) dst =
     (if dst \<le> maxD then
        (if minD \<le> dst \<and> bees (placeAt s q) \<noteq> [] then Some (bees (placeAt s q) ! 0)
         else getClosestBee_loop s maxD minD (entrance (placeAt s q)) (dst + 1))
      else None)"
  by (subst getClosestBee_loop.simps) simp

lemma loop_None_unfold: "getClosestBee_loop s maxD minD None dst = None"
  by (subst getClosestBee_loop.simps) simp

lemma loop_beyond: "maxD < dst \<Longrightarrow> getClosestBee_loop s maxD minD po dst = None"
  by (subst getClosestBee_loop.simps) (simp split: option.splits)

lemma occupiedAt_0: "occupiedAt s q 0 = (bees (placeAt s q) \<noteq> [])"
  by (simp add: occupiedAt_def)

lemma occupiedAt_Suc:
  "occupiedAt s q (Suc k) =
     (case entrance (placeAt s q) of None \<Rightarrow> False | Some q1 \<Rightarrow> occupiedAt s q1 k)"
  by (simp add: occupiedAt_def split: option.splits)

lemma loop_skip:
  "hops s q k = Some q' \<Longrightarrow> dst + int k \<le> maxD \<Longrightarrow>
   (\<And>k'. k' < k \<Longrightarrow> minD \<le> dst + int k' \<Longrightarrow> \<not> occupiedAt s q k') \<Longrightarrow>
   getClosestBee_loop s maxD minD (Some q) dst
     = getClosestBee_loop s maxD minD (Some q') (dst + int k)"
proof (induction k arbitrary: q dst)
  case 0
  then show ?case by simp
next
  case (Suc k)
  from Suc.prems(1) obtain q1 where e: "entrance (placeAt s q) = Some q1"
    and h: "hops s q1 k = Some q'"
    by (auto split: option.splits)
  have empty: "\<not> (minD \<le> dst \<and> bees (placeAt s q) \<noteq> [])"
    using Suc.prems(3) [of 0] by (auto simp: occupiedAt_0)
  have le: "dst \<le> maxD" using Suc.prems(2) by simp
  have rest: "\<And>k'. k' < k \<Longrightarrow> minD \<le> (dst + 1) + int k' \<Longrightarrow> \<not> occupiedAt s q1 k'"
  proof -
    fix k' assume "k' < k" "minD \<le> (dst + 1) + int k'"
    then have "\<not> occupiedAt s q (Suc k')" using Suc.prems(3) [of "Suc k'"] by simp
    then show "\<not> occupiedAt s q1 k'" by (simp add: occupiedAt_Suc e)
  qed
  have "getClosestBee_loop s maxD minD (Some q) dst
          = getClosestBee_loop s maxD minD (Some q1) (dst + 1)"
    using empty le by (auto simp add: loop_Some_unfold [of s maxD minD q dst] e)
  also have "\<dots> = getClosestBee_loop s maxD minD (Some q') ((dst + 1) + int k)"
    using h Suc.prems(2) rest by (intro Suc.IH) auto
  also have "(dst + 1) + int k = dst + int (Suc k)" by simp
  finally show ?case .
qed

lemma loop_none_found:
  "(\<And>k. minD \<le> dst + int k \<Longrightarrow> dst + int k \<le> maxD \<Longrightarrow> \<not> occupiedAt s q k) \<Longrightarrow>
   getClosestBee_loop s maxD minD (Some q) dst = None"
proof (induction "nat (maxD + 1 - dst)" arbitrary: q dst)
  case 0
  then have "\<not> dst \<le> maxD" by simp
  then show ?case by (simp add: loop_Some_unfold [of s maxD minD q dst])
next
  case (Suc n)
  then have le: "dst \<le> maxD" by simp
  have empty: "\<not> (minD \<le> dst \<and> bees (placeAt s q) \<noteq> [])"
    using Suc.prems [of 0] le by (auto simp: occupiedAt_0)
  show ?case
  proof (cases "entrance (placeAt s q)")
    case None
    then show ?thesis
      using empty by (auto simp add: loop_Some_unfold [of s maxD minD q dst] loop_None_unfold)
  next
    case (Some q1)
    have "getClosestBee_loop s maxD minD (Some q1) (dst + 1) = None"
    proof (rule Suc.hyps(1))
      show "n = nat (maxD + 1 - (dst + 1))" using Suc.hyps(2) by simp
    next
      fix k assume "minD \<le> dst + 1 + int k" "dst + 1 + int k \<le> maxD"
      then have "\<not> occupiedAt s q (Suc k)" using Suc.prems [of "Suc k"] by simp
      then show "\<not> occupiedAt s q1 k" by (simp add: occupiedAt_Suc Some)
    qed
    then show ?thesis
      using empty le by (auto simp add: loop_Some_unfold [of s maxD minD q dst] Some)
  qed
qed

lemma closest_found:
  assumes "hops s p d = Some q" "minD \<le> int d" "int d \<le> maxD" "bees (placeAt s q) \<noteq> []"
    and "\<And>d'. d' < d \<Longrightarrow> minD \<le> int d' \<Longrightarrow> \<not> occupiedAt s p d'"
  shows "Place_getClosestBee p maxD minD s = Some (bees (placeAt s q) ! 0)"
proof -
  have "getClosestBee_loop s maxD minD (Some p) 0
          = getClosestBee_loop s maxD minD (Some q) (0 + int d)"
    using assms by (intro loop_skip) auto
  then show ?thesis
    using assms by (simp add: Place_getClosestBee_def loop_Some_unfold [of s maxD minD q "int d"])
qed

lemma closest_none:
  assumes "\<And>d. minD \<le> int d \<Longrightarrow> int d \<le> maxD \<Longrightarrow> \<not> occupiedAt s p d"
  shows "Place_getClosestBee p maxD minD s = None"
  unfolding Place_getClosestBee_def using assms by (intro loop_none_found) auto

lemma closest_cases:
  "(\<exists>d q. hops s p d = Some q \<and> minD \<le> int d \<and> int d \<le> maxD \<and> bees (placeAt s q) \<noteq> []
      \<and> (\<forall>d'<d. minD \<le> int d' \<longrightarrow> \<not> occupiedAt s p d')
      \<and> Place_getClosestBee p maxD minD s = Some (bees (placeAt s q) ! 0))
   \<or> ((\<forall>d. minD \<le> int d \<and> int d \<le> maxD \<longrightarrow> \<not> occupiedAt s p d)
      \<and> Place_getClosestBee p maxD minD s = None)"
proof (cases "\<exists>d. minD \<le> int d \<and> int d \<le> maxD \<and> occupiedAt s p d")
  case False
  then show ?thesis using closest_none [of minD maxD s p] by blast
next
  case True
  define P where "P d = (minD \<le> int d \<and> int d \<le> maxD \<and> occupiedAt s p d)" for d
  define d where "d = (LEAST d. P d)"
  have ex: "\<exists>d. P d" using True by (simp add: P_def)
  have Pd: "P d" unfolding d_def using ex by (meson LeastI_ex)
  have least: "\<And>d'. d' < d \<Longrightarrow> \<not> P d'" unfolding d_def by (rule not_less_Least)
  from Pd obtain q where q: "hops s p d = Some q" "bees (placeAt s q) \<noteq> []"
    by (auto simp: P_def occupiedAt_def split: option.splits)
  have below: "\<forall>d'<d. minD \<le> int d' \<longrightarrow> \<not> occupiedAt s p d'"
  proof (intro allI impI)
    fix d' assume "d' < d" "minD \<le> int d'"
    moreover have "int d' \<le> maxD" using \<open>d' < d\<close> Pd by (simp add: P_def)
    ultimately show "\<not> occupiedAt s p d'" using least [of d'] by (simp add: P_def)
  qed
  have "Place_getClosestBee p maxD minD s = Some (bees (placeAt s q) ! 0)"
    using q Pd below by (intro closest_found) (auto simp: P_def)
  then show ?thesis using q Pd below by (auto simp: P_def)
qed

text \<open>
  Claim C7. \<^verbatim>\<open>getClosestBee\<close> returns a bee exactly when some place at a hop distance \<open>d\<close>
  with \<open>minDistance \<le> d \<le> maxDistance\<close> along the entrance links from \<open>p\<close> holds a bee, and the
  bee returned is the one at index 0 of the first such place (no place at a smaller
  admissible distance holds a bee); it returns \<^verbatim>\<open>undefined\<close> exactly when there is no such
  place, the chain ending before or the bound being passed. With \<open>maxDistance = 0\<close> a bee is
  returned only if \<open>p\<close> itself holds one, and it is the first bee of \<open>p\<close>.
\<close>

theorem getClosestBee_first_occupied:
  "(Place_getClosestBee p maxD minD s = Some b \<longleftrightarrow>
      (\<exists>d q. minD \<le> int d \<and> int d \<le> maxD \<and> hops s p d = Some q
         \<and> bees (placeAt s q) \<noteq> [] \<and> b = bees (placeAt s q) ! 0
         \<and> (\<forall>d'<d. minD \<le> int d' \<longrightarrow> \<not> occupiedAt s p d')))
   \<and> (Place_getClosestBee p maxD minD s = None \<longleftrightarrow>
        (\<forall>d. minD \<le> int d \<and> int d \<le> maxD \<longrightarrow> \<not> occupiedAt s p d))
   \<and> (Place_getClosestBee p 0 minD s = Some b \<longrightarrow>
        bees (placeAt s p) \<noteq> [] \<and> b = bees (placeAt s p) ! 0)"
proof (intro conjI)
  show "Place_getClosestBee p maxD minD s = Some b \<longleftrightarrow>
      (\<exists>d q. minD \<le> int d \<and> int d \<le> maxD \<and> hops s p d = Some q
         \<and> bees (placeAt s q) \<noteq> [] \<and> b = bees (placeAt s q) ! 0
         \<and> (\<forall>d'<d. minD \<le> int d' \<longrightarrow> \<not> occupiedAt s p d'))"
    (is "?L \<longleftrightarrow> ?R")
  proof
    assume ?L
    then show ?R using closest_cases [of s p minD maxD] by auto
  next
    assume ?R
    then obtain d q where "minD \<le> int d" "int d \<le> maxD" "hops s p d = Some q"
      "bees (placeAt s q) \<noteq> []" "b = bees (placeAt s q) ! 0"
      "\<forall>d'<d. minD \<le> int d' \<longrightarrow> \<not> occupiedAt s p d'" by blast
    then show ?L using closest_found [of s p d q minD maxD] by simp
  qed
next
  show "Place_getClosestBee p maxD minD s = None \<longleftrightarrow>
        (\<forall>d. minD \<le> int d \<and> int d \<le> maxD \<longrightarrow> \<not> occupiedAt s p d)"
    using closest_cases [of s p minD maxD] closest_none [of minD maxD s p] by auto
next
  show "Place_getClosestBee p 0 minD s = Some b \<longrightarrow>
        bees (placeAt s p) \<noteq> [] \<and> b = bees (placeAt s p) ! 0"
    by (auto simp: Place_getClosestBee_def loop_Some_unfold [of s 0 minD p 0] loop_beyond
          split: if_splits)
qed


text \<open>
  In the small game with bee 1 at place 2 and bee 0 at place 3: from the queen's place the
  closest bee within 3 hops is bee 1, one hop away; with a minimum of 2 hops it is bee 0;
  with a maximum of 0 hops there is none at the queen's place, and bee 1 at place 2.
\<close>

theorem getClosestBee_first_occupied_witness:
  "Place_getClosestBee 1 3 0 demoBees = Some 1
   \<and> Place_getClosestBee 1 3 2 demoBees = Some 0
   \<and> Place_getClosestBee 1 0 0 demoBees = None
   \<and> Place_getClosestBee 2 0 0 demoBees = Some 1"
proof -
  have h: "hops demoBees 1 0 = Some 1" "hops demoBees 1 1 = Some 2" "hops demoBees 1 2 = Some 3"
    "hops demoBees 2 0 = Some 2"
    using demoBees_places by (simp_all add: eval_nat_numeral)
  have o: "\<not> occupiedAt demoBees 1 0" "occupiedAt demoBees 1 1"
    using demoBees_places h by (simp_all add: occupiedAt_def)
  have a: "\<exists>d q. (0::int) \<le> int d \<and> int d \<le> 3 \<and> hops demoBees 1 d = Some q
         \<and> bees (placeAt demoBees q) \<noteq> [] \<and> 1 = bees (placeAt demoBees q) ! 0
         \<and> (\<forall>d'<d. (0::int) \<le> int d' \<longrightarrow> \<not> occupiedAt demoBees 1 d')"
    apply (rule exI [of _ 1], rule exI [of _ 2])
    using demoBees_places h o by simp
  have b: "\<exists>d q. (2::int) \<le> int d \<and> int d \<le> 3 \<and> hops demoBees 1 d = Some q
         \<and> bees (placeAt demoBees q) \<noteq> [] \<and> 0 = bees (placeAt demoBees q) ! 0
         \<and> (\<forall>d'<d. (2::int) \<le> int d' \<longrightarrow> \<not> occupiedAt demoBees 1 d')"
    apply (rule exI [of _ 2], rule exI [of _ 3])
    using demoBees_places h o by simp
  have c: "\<forall>d. (0::int) \<le> int d \<and> int d \<le> 0 \<longrightarrow> \<not> occupiedAt demoBees 1 d"
    using o by simp
  have d: "\<exists>d q. (0::int) \<le> int d \<and> int d \<le> 0 \<and> hops demoBees 2 d = Some q
         \<and> bees (placeAt demoBees q) \<noteq> [] \<and> 1 = bees (placeAt demoBees q) ! 0
         \<and> (\<forall>d'<d. (0::int) \<le> int d' \<longrightarrow> \<not> occupiedAt demoBees 2 d')"
    apply (rule exI [of _ 0], rule exI [of _ 2])
    using demoBees_places h by simp
  have r1: "Place_getClosestBee 1 3 0 demoBees = Some 1"
    by (rule iffD2 [OF getClosestBee_first_occupied [THEN conjunct1]]) (rule a)
  have r2: "Place_getClosestBee 1 3 2 demoBees = Some 0"
    by (rule iffD2 [OF getClosestBee_first_occupied [THEN conjunct1]]) (rule b)
  have r3: "Place_getClosestBee 1 0 0 demoBees = None"
    by (rule iffD2 [OF getClosestBee_first_occupied [THEN conjunct2, THEN conjunct1]]) (rule c)
  have r4: "Place_getClosestBee 2 0 0 demoBees = Some 1"
    by (rule iffD2 [OF getClosestBee_first_occupied [THEN conjunct1]]) (rule d)
  show ?thesis using r1 r2 r3 r4 by simp
qed

section \<open>The tunnels a new colony builds\<close>

text \<open>
  The inner loop, started with the next free reference \<open>n\<close>, creates the places
  \<open>n, n + 1, \<dots>\<close> of one tunnel: each exits to the one before it (the first to \<open>cur\<close>), and
  each but the last gets the next one as its entrance; of the older places only \<open>cur\<close>
  changes, in its entrance.
\<close>

lemma steps_unfold:
  "step < L \<Longrightarrow>
   AntColony_steps t L m step cur row s
     = AntColony_steps t L m (step + 1) (nextPlace s) (row @ [nextPlace s]) (stepStore t m step cur s)"
  by (subst AntColony_steps.simps) (simp add: Let_def newPlace_def stepStore_def)

lemma steps_done: "\<not> step < L \<Longrightarrow> AntColony_steps t L m step cur row s = (cur, row, s)"
  by (subst AntColony_steps.simps) simp

lemma stepStore_next: "nextPlace (stepStore t m step cur s) = Suc (nextPlace s)"
  by (simp add: stepStore_def Place_setEntrance_def updatePlace_def newPlace_def)

lemma stepStore_other:
  "x \<noteq> nextPlace s \<Longrightarrow> x \<noteq> cur \<Longrightarrow> placeAt (stepStore t m step cur s) x = placeAt s x"
  by (simp add: stepStore_def Place_setEntrance_def updatePlace_def newPlace_def)

lemma stepStore_cur:
  "cur \<noteq> nextPlace s \<Longrightarrow>
   placeAt (stepStore t m step cur s) cur = (placeAt s cur)\<lparr>entrance := Some (nextPlace s)\<rparr>"
  by (simp add: stepStore_def Place_setEntrance_def updatePlace_def newPlace_def)

lemma stepStore_new:
  "cur \<noteq> nextPlace s \<Longrightarrow>
   water (placeAt (stepStore t m step cur s) (nextPlace s)) = (m \<noteq> 0 \<and> jsRem (step + 1) m = 0)
   \<and> exit (placeAt (stepStore t m step cur s) (nextPlace s)) = Some cur
   \<and> entrance (placeAt (stepStore t m step cur s) (nextPlace s)) = None
   \<and> ant (placeAt (stepStore t m step cur s) (nextPlace s)) = None
   \<and> guard (placeAt (stepStore t m step cur s) (nextPlace s)) = None
   \<and> bees (placeAt (stepStore t m step cur s) (nextPlace s)) = []"
  by (simp add: stepStore_def Place_setEntrance_def updatePlace_def newPlace_def)

lemma steps_spec:
  "cur < nextPlace s \<Longrightarrow> AntColony_steps t L m step cur row s = (cur', row', s') \<Longrightarrow>
   row' = row @ [nextPlace s ..< nextPlace s + nat (L - step)]
   \<and> cur' = (if L \<le> step then cur else nextPlace s + nat (L - step) - 1)
   \<and> nextPlace s' = nextPlace s + nat (L - step)
   \<and> (\<forall>x. x < nextPlace s \<and> x \<noteq> cur \<longrightarrow> placeAt s' x = placeAt s x)
   \<and> placeAt s' cur
       = (if L \<le> step then placeAt s cur else (placeAt s cur)\<lparr>entrance := Some (nextPlace s)\<rparr>)
   \<and> (\<forall>i < nat (L - step).
        water (placeAt s' (nextPlace s + i)) = (m \<noteq> 0 \<and> jsRem (step + int i + 1) m = 0)
        \<and> exit (placeAt s' (nextPlace s + i)) = Some (if i = 0 then cur else nextPlace s + i - 1)
        \<and> entrance (placeAt s' (nextPlace s + i))
            = (if i + 1 < nat (L - step) then Some (nextPlace s + i + 1) else None)
        \<and> ant (placeAt s' (nextPlace s + i)) = None
        \<and> guard (placeAt s' (nextPlace s + i)) = None
        \<and> bees (placeAt s' (nextPlace s + i)) = [])"
proof (induction "nat (L - step)" arbitrary: step cur row s)
  case 0
  then have "\<not> step < L" by simp
  then show ?case using "0.prems" by (simp add: steps_done)
next
  case (Suc k)
  define n where "n = nextPlace s"
  define s2 where "s2 = stepStore t m step cur s"
  have lt: "step < L" and k: "k = nat (L - (step + 1))" and kk: "nat (L - step) = Suc k"
    using Suc.hyps(2) by auto
  have ne: "cur \<noteq> n" using Suc.prems(1) by (simp add: n_def)
  have next2: "nextPlace s2 = Suc n" by (simp add: s2_def stepStore_next n_def)
  have rec: "AntColony_steps t L m (step + 1) n (row @ [n]) s2 = (cur', row', s')"
    using Suc.prems(2) lt by (simp add: steps_unfold n_def s2_def)
  have ih: "row' = (row @ [n]) @ [Suc n ..< Suc n + k]
   \<and> cur' = (if L \<le> step + 1 then n else Suc n + k - 1)
   \<and> nextPlace s' = Suc n + k
   \<and> (\<forall>x. x < Suc n \<and> x \<noteq> n \<longrightarrow> placeAt s' x = placeAt s2 x)
   \<and> placeAt s' n
       = (if L \<le> step + 1 then placeAt s2 n else (placeAt s2 n)\<lparr>entrance := Some (Suc n)\<rparr>)
   \<and> (\<forall>i < k.
        water (placeAt s' (Suc n + i)) = (m \<noteq> 0 \<and> jsRem (step + 1 + int i + 1) m = 0)
        \<and> exit (placeAt s' (Suc n + i)) = Some (if i = 0 then n else Suc n + i - 1)
        \<and> entrance (placeAt s' (Suc n + i))
            = (if i + 1 < k then Some (Suc n + i + 1) else None)
        \<and> ant (placeAt s' (Suc n + i)) = None
        \<and> guard (placeAt s' (Suc n + i)) = None
        \<and> bees (placeAt s' (Suc n + i)) = [])"
    using Suc.hyps(1) [OF k _ rec] next2 k by simp
  have new: "water (placeAt s2 n) = (m \<noteq> 0 \<and> jsRem (step + 1) m = 0)
     \<and> exit (placeAt s2 n) = Some cur \<and> entrance (placeAt s2 n) = None
     \<and> ant (placeAt s2 n) = None \<and> guard (placeAt s2 n) = None \<and> bees (placeAt s2 n) = []"
    using stepStore_new [of cur s t m step] ne by (simp add: n_def s2_def)
  have old: "\<And>x. x \<noteq> n \<Longrightarrow> x \<noteq> cur \<Longrightarrow> placeAt s2 x = placeAt s x"
    by (simp add: s2_def n_def stepStore_other)
  have curp: "placeAt s2 cur = (placeAt s cur)\<lparr>entrance := Some n\<rparr>"
    using ne by (simp add: s2_def n_def stepStore_cur)
  have c1: "row' = row @ [n ..< n + Suc k]"
    using ih by (simp add: upt_conv_Cons)
  have c2: "cur' = n + Suc k - 1"
    using ih k lt by (cases "L \<le> step + 1") auto
  have c3: "nextPlace s' = n + Suc k" using ih by simp
  have c4: "\<forall>x. x < n \<and> x \<noteq> cur \<longrightarrow> placeAt s' x = placeAt s x"
    using ih old by auto
  have c5: "placeAt s' cur = (placeAt s cur)\<lparr>entrance := Some n\<rparr>"
    using ih curp Suc.prems(1) by (auto simp: n_def)
  have c6: "water (placeAt s' (n + i)) = (m \<noteq> 0 \<and> jsRem (step + int i + 1) m = 0)
        \<and> exit (placeAt s' (n + i)) = Some (if i = 0 then cur else n + i - 1)
        \<and> entrance (placeAt s' (n + i)) = (if i + 1 < Suc k then Some (n + i + 1) else None)
        \<and> ant (placeAt s' (n + i)) = None
        \<and> guard (placeAt s' (n + i)) = None
        \<and> bees (placeAt s' (n + i)) = []" if "i < Suc k" for i
  proof (cases i)
    case 0
    have "k = 0 \<longleftrightarrow> L \<le> step + 1" using k lt by auto
    then show ?thesis using ih new 0 by (cases "L \<le> step + 1") auto
  next
    case (Suc j)
    then have "j < k" using that by simp
    then show ?thesis using ih Suc by (auto simp: add.assoc add.commute add.left_commute)
  qed
  show ?case
    unfolding kk n_def [symmetric] using c1 c2 c3 c4 c5 c6 lt by auto
qed

lemma tunnels_unfold:
  "tunnel < T \<Longrightarrow>
   AntColony_tunnels T L m tunnel q plcs entrs s
     = AntColony_tunnels T L m (tunnel + 1) q
         (plcs @ [fst (snd (AntColony_steps tunnel L m 0 q [] s))])
         (entrs @ [fst (AntColony_steps tunnel L m 0 q [] s)])
         (snd (snd (AntColony_steps tunnel L m 0 q [] s)))"
  by (subst AntColony_tunnels.simps) (simp add: split_beta)

lemma tunnels_done:
  "\<not> tunnel < T \<Longrightarrow> AntColony_tunnels T L m tunnel q plcs entrs s = (plcs, entrs, s)"
  by (subst AntColony_tunnels.simps) simp

lemma tunnels_spec:
  "q < nextPlace s \<Longrightarrow> 0 < L \<Longrightarrow>
   AntColony_tunnels T L m tunnel q plcs entrs s = (plcs', entrs', s') \<Longrightarrow>
   plcs' = plcs @ map (\<lambda>i. [nextPlace s + i * nat L ..< nextPlace s + i * nat L + nat L])
                    [0..<nat (T - tunnel)]
   \<and> entrs' = entrs @ map (\<lambda>i. nextPlace s + i * nat L + nat L - 1) [0..<nat (T - tunnel)]
   \<and> nextPlace s' = nextPlace s + nat (T - tunnel) * nat L
   \<and> (\<forall>x. x < nextPlace s \<and> x \<noteq> q \<longrightarrow> placeAt s' x = placeAt s x)
   \<and> exit (placeAt s' q) = exit (placeAt s q)
   \<and> (\<forall>i < nat (T - tunnel). \<forall>j < nat L.
        water (placeAt s' (nextPlace s + i * nat L + j)) = (m \<noteq> 0 \<and> jsRem (int j + 1) m = 0)
        \<and> exit (placeAt s' (nextPlace s + i * nat L + j))
            = Some (if j = 0 then q else nextPlace s + i * nat L + j - 1)
        \<and> entrance (placeAt s' (nextPlace s + i * nat L + j))
            = (if j + 1 < nat L then Some (nextPlace s + i * nat L + j + 1) else None)
        \<and> ant (placeAt s' (nextPlace s + i * nat L + j)) = None
        \<and> guard (placeAt s' (nextPlace s + i * nat L + j)) = None
        \<and> bees (placeAt s' (nextPlace s + i * nat L + j)) = [])"
proof (induction "nat (T - tunnel)" arbitrary: tunnel plcs entrs s)
  case 0
  then have "\<not> tunnel < T" by simp
  then show ?case using "0.prems" by (simp add: tunnels_done)
next
  case (Suc k)
  define n where "n = nextPlace s"
  define l where "l = nat L"
  obtain cur row s1 where st: "AntColony_steps tunnel L m 0 q [] s = (cur, row, s1)"
    by (cases "AntColony_steps tunnel L m 0 q [] s") auto
  have lt: "tunnel < T" and k: "k = nat (T - (tunnel + 1))" and kk: "nat (T - tunnel) = Suc k"
    using Suc.hyps(2) by auto
  have lpos: "0 < l" "nat (L - 0) = l" "\<not> L \<le> 0" using Suc.prems(2) by (auto simp: l_def)
  have sp: "row = [n ..< n + l] \<and> cur = n + l - 1 \<and> nextPlace s1 = n + l
   \<and> (\<forall>x. x < n \<and> x \<noteq> q \<longrightarrow> placeAt s1 x = placeAt s x)
   \<and> placeAt s1 q = (placeAt s q)\<lparr>entrance := Some n\<rparr>
   \<and> (\<forall>i < l.
        water (placeAt s1 (n + i)) = (m \<noteq> 0 \<and> jsRem (int i + 1) m = 0)
        \<and> exit (placeAt s1 (n + i)) = Some (if i = 0 then q else n + i - 1)
        \<and> entrance (placeAt s1 (n + i)) = (if i + 1 < l then Some (n + i + 1) else None)
        \<and> ant (placeAt s1 (n + i)) = None
        \<and> guard (placeAt s1 (n + i)) = None
        \<and> bees (placeAt s1 (n + i)) = [])"
    using steps_spec [OF Suc.prems(1) st, of ] lpos by (simp add: n_def)
  have rec: "AntColony_tunnels T L m (tunnel + 1) q (plcs @ [row]) (entrs @ [cur]) s1
               = (plcs', entrs', s')"
    using Suc.prems(3) lt by (simp add: tunnels_unfold st)
  have q1: "q < nextPlace s1" using sp Suc.prems(1) by (simp add: n_def)
  define P where "P x j \<longleftrightarrow>
        water (placeAt s' x) = (m \<noteq> 0 \<and> jsRem (int j + 1) m = 0)
        \<and> exit (placeAt s' x) = Some (if j = 0 then q else x - 1)
        \<and> entrance (placeAt s' x) = (if j + 1 < l then Some (x + 1) else None)
        \<and> ant (placeAt s' x) = None
        \<and> guard (placeAt s' x) = None
        \<and> bees (placeAt s' x) = []" for x j
  have ih: "plcs' = (plcs @ [row]) @ map (\<lambda>i. [n + l + i * l ..< n + l + i * l + l]) [0..<k]
   \<and> entrs' = (entrs @ [cur]) @ map (\<lambda>i. n + l + i * l + l - 1) [0..<k]
   \<and> nextPlace s' = n + l + k * l
   \<and> (\<forall>x. x < n + l \<and> x \<noteq> q \<longrightarrow> placeAt s' x = placeAt s1 x)
   \<and> exit (placeAt s' q) = exit (placeAt s1 q)
   \<and> (\<forall>i < k. \<forall>j < l. P (n + l + i * l + j) j)"
    using Suc.hyps(1) [OF k q1 Suc.prems(2) rec] sp k by (simp add: l_def P_def)
  have c1: "plcs' = plcs @ map (\<lambda>i. [n + i * l ..< n + i * l + l]) [0..<Suc k]"
    using ih sp by (simp add: map_upt_Suc add.assoc add.commute add.left_commute del: upt_Suc)
  have c2: "entrs' = entrs @ map (\<lambda>i. n + i * l + l - 1) [0..<Suc k]"
    using ih sp by (simp add: map_upt_Suc add.assoc add.commute add.left_commute del: upt_Suc)
  have c3: "nextPlace s' = n + Suc k * l" using ih by simp
  have c4: "\<forall>x. x < n \<and> x \<noteq> q \<longrightarrow> placeAt s' x = placeAt s x"
    using ih sp by auto
  have c5: "exit (placeAt s' q) = exit (placeAt s q)" using ih sp by simp
  have c6: "P (n + i * l + j) j" if "i < Suc k" "j < l" for i j
  proof (cases i)
    case 0
    have "n + j < n + l" "n + j \<noteq> q" using that Suc.prems(1) by (auto simp: n_def)
    then have "placeAt s' (n + j) = placeAt s1 (n + j)" using ih by blast
    then show ?thesis using sp that 0 by (simp add: P_def)
  next
    case (Suc i')
    then have "i' < k" using that by simp
    then have "P (n + l + i' * l + j) j" using ih that(2) by blast
    moreover have "n + i * l + j = n + l + i' * l + j" using Suc by simp
    ultimately show ?thesis by (simp only:)
  qed
  show ?case
    unfolding kk n_def [symmetric] l_def [symmetric]
    using c1 c2 c3 c4 c5 c6 unfolding P_def by blast
qed

lemma jsRem_dvd: "0 < a \<Longrightarrow> b \<noteq> 0 \<Longrightarrow> (jsRem a b = 0) = (b dvd a)"
  by (simp add: jsRem_def dvd_eq_mod_eq_0 [symmetric])

lemma newAntColony_closed:
  assumes "1 \<le> L" "newAntColony startingFood T L m s = (c, s')"
  shows "queenPlace c = nextPlace s"
    "places c = map (\<lambda>i. [Suc (nextPlace s) + i * nat L ..< Suc (nextPlace s) + i * nat L + nat L])
                  [0..<nat T]"
    "beeEntrances c = map (\<lambda>i. Suc (nextPlace s) + i * nat L + nat L - 1) [0..<nat T]"
    "exit (placeAt s' (nextPlace s)) = None"
    "\<And>i j. i < nat T \<Longrightarrow> j < nat L \<Longrightarrow>
        water (placeAt s' (Suc (nextPlace s) + i * nat L + j)) = (m \<noteq> 0 \<and> jsRem (int j + 1) m = 0)
        \<and> exit (placeAt s' (Suc (nextPlace s) + i * nat L + j))
            = Some (if j = 0 then nextPlace s else Suc (nextPlace s) + i * nat L + j - 1)
        \<and> entrance (placeAt s' (Suc (nextPlace s) + i * nat L + j))
            = (if j + 1 < nat L then Some (Suc (nextPlace s) + i * nat L + j + 1) else None)"
    "nextPlace s' = Suc (nextPlace s) + nat T * nat L"
proof -
  define q where "q = nextPlace s"
  define s1 where "s1 = snd (newPlace ''Ant Queen'' False None None s)"
  obtain plcs entrs s2 where tn: "AntColony_tunnels T L m 0 q [] [] s1 = (plcs, entrs, s2)"
    by (cases "AntColony_tunnels T L m 0 q [] [] s1") auto
  have s1: "nextPlace s1 = Suc q" "exit (placeAt s1 q) = None"
    by (simp_all add: s1_def q_def newPlace_def)
  have c: "c = \<lparr>food = startingFood, places = plcs, beeEntrances = entrs, queenPlace = q,
        boosts = [''FlyingLeaf'' \<mapsto> JSNumber 1, ''StickyLeaf'' \<mapsto> JSNumber 1,
                  ''IcyLeaf'' \<mapsto> JSNumber 1, ''BugSpray'' \<mapsto> JSNumber 0]\<rparr>"
    and s': "s' = s2"
    using assms(2) tn by (simp_all add: newAntColony_def newPlace_def q_def s1_def)
  have sp: "plcs = [] @ map (\<lambda>i. [nextPlace s1 + i * nat L ..< nextPlace s1 + i * nat L + nat L])
                    [0..<nat (T - 0)]
   \<and> entrs = [] @ map (\<lambda>i. nextPlace s1 + i * nat L + nat L - 1) [0..<nat (T - 0)]
   \<and> nextPlace s2 = nextPlace s1 + nat (T - 0) * nat L
   \<and> (\<forall>x. x < nextPlace s1 \<and> x \<noteq> q \<longrightarrow> placeAt s2 x = placeAt s1 x)
   \<and> exit (placeAt s2 q) = exit (placeAt s1 q)
   \<and> (\<forall>i < nat (T - 0). \<forall>j < nat L.
        water (placeAt s2 (nextPlace s1 + i * nat L + j)) = (m \<noteq> 0 \<and> jsRem (int j + 1) m = 0)
        \<and> exit (placeAt s2 (nextPlace s1 + i * nat L + j))
            = Some (if j = 0 then q else nextPlace s1 + i * nat L + j - 1)
        \<and> entrance (placeAt s2 (nextPlace s1 + i * nat L + j))
            = (if j + 1 < nat L then Some (nextPlace s1 + i * nat L + j + 1) else None)
        \<and> ant (placeAt s2 (nextPlace s1 + i * nat L + j)) = None
        \<and> guard (placeAt s2 (nextPlace s1 + i * nat L + j)) = None
        \<and> bees (placeAt s2 (nextPlace s1 + i * nat L + j)) = [])"
    by (rule tunnels_spec [OF _ _ tn]) (use assms(1) s1 in auto)
  show "queenPlace c = nextPlace s" by (simp add: c q_def)
  show "places c = map (\<lambda>i. [Suc (nextPlace s) + i * nat L ..< Suc (nextPlace s) + i * nat L + nat L])
                  [0..<nat T]"
    using sp by (simp add: c s1 q_def [symmetric])
  show "beeEntrances c = map (\<lambda>i. Suc (nextPlace s) + i * nat L + nat L - 1) [0..<nat T]"
    using sp by (simp add: c s1 q_def [symmetric])
  show "exit (placeAt s' (nextPlace s)) = None"
    using sp s1 by (simp add: s' q_def)
  show "water (placeAt s' (Suc (nextPlace s) + i * nat L + j)) = (m \<noteq> 0 \<and> jsRem (int j + 1) m = 0)
        \<and> exit (placeAt s' (Suc (nextPlace s) + i * nat L + j))
            = Some (if j = 0 then nextPlace s else Suc (nextPlace s) + i * nat L + j - 1)
        \<and> entrance (placeAt s' (Suc (nextPlace s) + i * nat L + j))
            = (if j + 1 < nat L then Some (Suc (nextPlace s) + i * nat L + j + 1) else None)"
    if "i < nat T" "j < nat L" for i j
    using sp that unfolding s1 s' q_def [symmetric] by simp
  show "nextPlace s' = Suc (nextPlace s) + nat T * nat L"
    using sp by (simp add: s' s1 q_def)
qed

lemma newAntColony_entrances_fresh:
  assumes "1 \<le> L" "newAntColony startingFood T L m s = (c, s')" "e \<in> set (beeEntrances c)"
  shows "nextPlace s < e \<and> e < nextPlace s'"
proof -
  note cl = newAntColony_closed [OF assms(1,2)]
  obtain i where i: "i < nat T" and e: "e = Suc (nextPlace s) + i * nat L + nat L - 1"
    using assms(3) unfolding cl(3) by auto
  have l: "0 < nat L" using assms(1) by simp
  have "Suc i * nat L \<le> nat T * nat L" using i by (intro mult_le_mono1) simp
  then have "i * nat L + nat L \<le> nat T * nat L" by simp
  then show ?thesis using e l unfolding cl(6) by linarith
qed

lemma distinct_entrances: "0 < l \<Longrightarrow> distinct (map (\<lambda>i. Suc n + i * l + l - 1) [0..<k])"
  by (auto simp: distinct_map inj_on_def)

text \<open>
  Claim C5, as the code has it. A colony built with \<open>T \<ge> 1\<close> tunnels of length \<open>L \<ge> 1\<close> and
  moat frequency \<open>m\<close> has \<open>T\<close> entrances, all different, the entrance of tunnel \<open>t\<close> being the
  place at its last step \<open>L - 1\<close>; the queen's place has no exit; the place at step \<open>j\<close> of a
  tunnel is not the queen's place, its exit is the place at step \<open>j - 1\<close> (the queen's place
  for \<open>j = 0\<close>), its entrance is the place at step \<open>j + 1\<close> and is \<^verbatim>\<open>undefined\<close> exactly at the
  last step \<open>j = L - 1\<close> (not at the first step, which is next to the queen), and it is water
  exactly when \<open>m\<close> is not zero and divides \<open>j + 1\<close>.
\<close>

theorem newAntColony_grid:
  assumes "1 \<le> T" "1 \<le> L" "newAntColony startingFood T L m s = (c, s')"
  shows "length (beeEntrances c) = nat T \<and> card (set (beeEntrances c)) = nat T
    \<and> length (places c) = nat T
    \<and> exit (placeAt s' (queenPlace c)) = None
    \<and> (\<forall>t < nat T. length (places c ! t) = nat L
         \<and> beeEntrances c ! t = places c ! t ! (nat L - 1)
         \<and> (\<forall>j < nat L.
              places c ! t ! j \<noteq> queenPlace c
              \<and> exit (placeAt s' (places c ! t ! j))
                  = Some (if j = 0 then queenPlace c else places c ! t ! (j - 1))
              \<and> entrance (placeAt s' (places c ! t ! j))
                  = (if j + 1 < nat L then Some (places c ! t ! (j + 1)) else None)
              \<and> (water (placeAt s' (places c ! t ! j)) \<longleftrightarrow> m \<noteq> 0 \<and> m dvd (int j + 1))))"
proof -
  note cl = newAntColony_closed [OF assms(2) assms(3)]
  define n where "n = Suc (nextPlace s)"
  define l where "l = nat L"
  have lpos: "0 < l" using assms(2) by (simp add: l_def)
  have pl: "places c = map (\<lambda>i. [n + i * l ..< n + i * l + l]) [0..<nat T]"
    and en: "beeEntrances c = map (\<lambda>i. n + i * l + l - 1) [0..<nat T]"
    and qp: "queenPlace c = nextPlace s"
    using cl(1,2,3) by (simp_all add: n_def l_def)
  have len: "length (beeEntrances c) = nat T" "length (places c) = nat T"
    by (simp_all add: pl en)
  have "distinct (beeEntrances c)"
    unfolding en n_def by (rule distinct_entrances [OF lpos])
  then have card: "card (set (beeEntrances c)) = nat T"
    using len by (simp add: distinct_card)
  have row: "places c ! t = [n + t * l ..< n + t * l + l]" if "t < nat T" for t
    using that by (simp add: pl)
  have cell: "places c ! t ! j = n + t * l + j" if "t < nat T" "j < l" for t j
    using that by (simp add: row)
  have tun: "length (places c ! t) = l
         \<and> beeEntrances c ! t = places c ! t ! (l - 1)
         \<and> (\<forall>j < l.
              places c ! t ! j \<noteq> queenPlace c
              \<and> exit (placeAt s' (places c ! t ! j))
                  = Some (if j = 0 then queenPlace c else places c ! t ! (j - 1))
              \<and> entrance (placeAt s' (places c ! t ! j))
                  = (if j + 1 < l then Some (places c ! t ! (j + 1)) else None)
              \<and> (water (placeAt s' (places c ! t ! j)) \<longleftrightarrow> m \<noteq> 0 \<and> m dvd (int j + 1)))"
    if t: "t < nat T" for t
  proof (intro conjI allI impI)
    show "length (places c ! t) = l" using t by (simp add: row)
    show "beeEntrances c ! t = places c ! t ! (l - 1)"
      using t lpos by (simp add: en cell)
  next
    fix j assume j: "j < l"
    note f = cl(5) [of t j, unfolded n_def [symmetric] l_def [symmetric], OF t j]
    show "places c ! t ! j \<noteq> queenPlace c" using t j by (simp add: cell qp n_def)
    show "exit (placeAt s' (places c ! t ! j))
            = Some (if j = 0 then queenPlace c else places c ! t ! (j - 1))"
      using f t j by (cases j) (simp_all add: cell qp)
    show "entrance (placeAt s' (places c ! t ! j))
            = (if j + 1 < l then Some (places c ! t ! (j + 1)) else None)"
      using f t j by (simp add: cell)
    show "water (placeAt s' (places c ! t ! j)) \<longleftrightarrow> m \<noteq> 0 \<and> m dvd (int j + 1)"
      using f t j jsRem_dvd [of "int j + 1" m] by (auto simp add: cell)
  qed
  show ?thesis
    using len card tun cl(4) qp unfolding l_def by simp
qed


text \<open>
  The colony of the small game has one tunnel of two steps and a moat at every second step.
\<close>

theorem newAntColony_grid_witness:
  "(1::int) \<le> 1 \<and> (1::int) \<le> 2 \<and> newAntColony 10 1 2 2 (snd demoHive) = demoColony
   \<and> length (beeEntrances (fst demoColony)) = 1
   \<and> exit (placeAt (snd demoColony) (queenPlace (fst demoColony))) = None
   \<and> exit (placeAt (snd demoColony) (places (fst demoColony) ! 0 ! 0))
       = Some (queenPlace (fst demoColony))
   \<and> exit (placeAt (snd demoColony) (places (fst demoColony) ! 0 ! 1))
       = Some (places (fst demoColony) ! 0 ! 0)
   \<and> entrance (placeAt (snd demoColony) (places (fst demoColony) ! 0 ! 0))
       = Some (places (fst demoColony) ! 0 ! 1)
   \<and> entrance (placeAt (snd demoColony) (places (fst demoColony) ! 0 ! 1)) = None
   \<and> \<not> water (placeAt (snd demoColony) (places (fst demoColony) ! 0 ! 0))
   \<and> water (placeAt (snd demoColony) (places (fst demoColony) ! 0 ! 1))"
proof -
  have h: "newAntColony 10 1 2 2 (snd demoHive) = (fst demoColony, snd demoColony)"
    by (simp add: demoColony_def)
  have a: "(1::int) \<le> 1" "(1::int) \<le> 2" by simp_all
  note g = newAntColony_grid [OF a h]
  have t: "\<forall>j < nat 2.
              places (fst demoColony) ! 0 ! j \<noteq> queenPlace (fst demoColony)
              \<and> exit (placeAt (snd demoColony) (places (fst demoColony) ! 0 ! j))
                  = Some (if j = 0 then queenPlace (fst demoColony)
                          else places (fst demoColony) ! 0 ! (j - 1))
              \<and> entrance (placeAt (snd demoColony) (places (fst demoColony) ! 0 ! j))
                  = (if j + 1 < nat 2 then Some (places (fst demoColony) ! 0 ! (j + 1)) else None)
              \<and> (water (placeAt (snd demoColony) (places (fst demoColony) ! 0 ! j))
                    \<longleftrightarrow> (2::int) \<noteq> 0 \<and> (2::int) dvd (int j + 1))"
    using g by simp
  have j0: "(0::nat) < nat 2" and j1: "(1::nat) < nat 2" by simp_all
  show ?thesis
    using g t [rule_format, OF j0] t [rule_format, OF j1] h by simp
qed


text \<open>
  In that colony the place at step 1 is neither the queen's place nor the first step of its
  tunnel, and it has no entrance; the first step has one.
\<close>

theorem newAntColony_first_step_counterexample:
  "places (fst demoColony) ! 0 ! 1 \<noteq> queenPlace (fst demoColony)
   \<and> places (fst demoColony) ! 0 ! 1 \<noteq> places (fst demoColony) ! 0 ! 0
   \<and> entrance (placeAt (snd demoColony) (places (fst demoColony) ! 0 ! 1)) = None
   \<and> entrance (placeAt (snd demoColony) (places (fst demoColony) ! 0 ! 0)) \<noteq> None"
  by code_simp

section \<open>Waves: scheduling and release\<close>

lemma indexOf_ge: "- 1 \<le> indexOf xs y"
  by (induction xs) (auto simp: Let_def)

lemma indexOf_found: "(0 \<le> indexOf xs y) = (y \<in> set xs)"
  using indexOf_ge [of _ y] by (induction xs) (auto simp: Let_def)

lemma splice1_indexOf: "y \<in> set xs \<Longrightarrow> splice1 (indexOf xs y) xs = remove1 y xs"
proof (induction xs)
  case Nil
  then show ?case by simp
next
  case (Cons x xs)
  show ?case
  proof (cases "x = y")
    case True
    then show ?thesis by (simp add: splice1_def)
  next
    case False
    then have y: "y \<in> set xs" using Cons.prems by simp
    then have nn: "0 \<le> indexOf xs y" by (simp add: indexOf_found)
    have "splice1 (indexOf xs y) xs = remove1 y xs" using y by (rule Cons.IH)
    then show ?thesis
      using False nn by (simp add: splice1_def Let_def nat_add_distrib)
  qed
qed

lemma random_index:
  assumes "0 \<le> r" "r < 1" "0 < n"
  shows "0 \<le> \<lfloor>r * real n\<rfloor> \<and> \<lfloor>r * real n\<rfloor> < int n"
proof -
  have "0 \<le> r * real n" using assms by simp
  moreover have "r * real n < real n" using assms by simp
  ultimately show ?thesis by (simp add: floor_less_iff)
qed

lemma invade_forEach_Cons:
  assumes "randomSource rnd" "entrances \<noteq> []"
  shows "invade_forEach rnd hr entrances (b # wave) s
           = invade_forEach rnd hr entrances wave (invadeStep rnd hr entrances b s)"
proof -
  have "0 \<le> rnd (randomCalls (Place_removeBee b hr s))" "rnd (randomCalls (Place_removeBee b hr s)) < 1"
    using assms(1) by (simp_all add: randomSource_def)
  then have "0 \<le> \<lfloor>rnd (randomCalls (Place_removeBee b hr s)) * real (length entrances)\<rfloor>
     \<and> \<lfloor>rnd (randomCalls (Place_removeBee b hr s)) * real (length entrances)\<rfloor> < int (length entrances)"
    using assms(2) by (intro random_index) simp_all
  then show ?thesis
    by (simp add: invadeStep_def Math_random_def Let_def)
qed

lemma invadeStep_entrance:
  assumes "randomSource rnd" "entrances \<noteq> []"
  shows "\<exists>e \<in> set entrances. invadeStep rnd hr entrances b s
            = Place_addBee b e ((Place_removeBee b hr s)\<lparr>randomCalls := Suc (randomCalls (Place_removeBee b hr s))\<rparr>)"
proof -
  have "0 \<le> rnd (randomCalls (Place_removeBee b hr s))" "rnd (randomCalls (Place_removeBee b hr s)) < 1"
    using assms(1) by (simp_all add: randomSource_def)
  then have "0 \<le> \<lfloor>rnd (randomCalls (Place_removeBee b hr s)) * real (length entrances)\<rfloor>
     \<and> \<lfloor>rnd (randomCalls (Place_removeBee b hr s)) * real (length entrances)\<rfloor> < int (length entrances)"
    using assms(2) by (intro random_index) simp_all
  then have "entrances ! nat \<lfloor>rnd (randomCalls (Place_removeBee b hr s)) * real (length entrances)\<rfloor>
               \<in> set entrances"
    by (intro nth_mem) linarith
  then show ?thesis
    by (auto simp: invadeStep_def Math_random_def)
qed

lemma invadeStep_facts:
  assumes "randomSource rnd" "entrances \<noteq> []" "hr \<notin> set entrances"
  shows "\<exists>e \<in> set entrances.
      bees (placeAt (invadeStep rnd hr entrances b s) hr) = remove1 b (bees (placeAt s hr))
      \<and> bees (placeAt (invadeStep rnd hr entrances b s) e) = bees (placeAt s e) @ [b]
      \<and> beePlace (beeAt (invadeStep rnd hr entrances b s) b) = Some e
      \<and> (\<forall>x. x \<noteq> hr \<and> x \<noteq> e \<longrightarrow> placeAt (invadeStep rnd hr entrances b s) x = placeAt s x)
      \<and> (\<forall>x. (placeAt (invadeStep rnd hr entrances b s) x)\<lparr>bees := []\<rparr>
              = (placeAt s x)\<lparr>bees := []\<rparr>)
      \<and> (\<forall>b'. b' \<noteq> b \<longrightarrow> beeAt (invadeStep rnd hr entrances b s) b' = beeAt s b')
      \<and> antAt (invadeStep rnd hr entrances b s) = antAt s"
proof -
  obtain e where e: "e \<in> set entrances"
    and st: "invadeStep rnd hr entrances b s
            = Place_addBee b e ((Place_removeBee b hr s)\<lparr>randomCalls := Suc (randomCalls (Place_removeBee b hr s))\<rparr>)"
    using invadeStep_entrance [OF assms(1,2)] by blast
  have ne: "e \<noteq> hr" using e assms(3) by auto
  show ?thesis
  proof (rule bexI [OF _ e], intro conjI allI impI)
    show "bees (placeAt (invadeStep rnd hr entrances b s) hr) = remove1 b (bees (placeAt s hr))"
      using ne by (auto simp: st bee_defs Let_def indexOf_found splice1_indexOf remove1_idem)
    show "bees (placeAt (invadeStep rnd hr entrances b s) e) = bees (placeAt s e) @ [b]"
      using ne by (auto simp: st bee_defs Let_def)
    show "beePlace (beeAt (invadeStep rnd hr entrances b s) b) = Some e"
      by (auto simp: st bee_defs Let_def)
    show "placeAt (invadeStep rnd hr entrances b s) x = placeAt s x" if "x \<noteq> hr \<and> x \<noteq> e" for x
      using that by (auto simp: st bee_defs Let_def)
    show "(placeAt (invadeStep rnd hr entrances b s) x)\<lparr>bees := []\<rparr>
              = (placeAt s x)\<lparr>bees := []\<rparr>" for x
      by (auto simp: st bee_defs Let_def)
    show "beeAt (invadeStep rnd hr entrances b s) b' = beeAt s b'" if "b' \<noteq> b" for b'
      using that by (auto simp: st bee_defs Let_def)
    show "antAt (invadeStep rnd hr entrances b s) = antAt s"
      by (auto simp: st bee_defs Let_def)
  qed
qed

lemma invade_forEach_spec:
  assumes "randomSource rnd" "entrances \<noteq> []" "hr \<notin> set entrances"
  shows "\<exists>s'. invade_forEach rnd hr entrances wave s = Inr s'
     \<and> bees (placeAt s' hr) = fold remove1 wave (bees (placeAt s hr))
     \<and> (\<forall>b\<in>set wave. \<exists>e\<in>set entrances.
           b \<in> set (bees (placeAt s' e)) \<and> beePlace (beeAt s' b) = Some e)
     \<and> (\<forall>e\<in>set entrances. set (bees (placeAt s e)) \<subseteq> set (bees (placeAt s' e)))
     \<and> (\<forall>x. x \<noteq> hr \<and> x \<notin> set entrances \<longrightarrow> placeAt s' x = placeAt s x)
     \<and> (\<forall>x. (placeAt s' x)\<lparr>bees := []\<rparr> = (placeAt s x)\<lparr>bees := []\<rparr>)
     \<and> (\<forall>b. b \<notin> set wave \<longrightarrow> beeAt s' b = beeAt s b)
     \<and> antAt s' = antAt s"
proof (induction wave arbitrary: s)
  case Nil
  show ?case by simp
next
  case (Cons b wave)
  define s3 where "s3 = invadeStep rnd hr entrances b s"
  obtain e where e: "e \<in> set entrances"
    and f1: "bees (placeAt s3 hr) = remove1 b (bees (placeAt s hr))"
    and f2: "bees (placeAt s3 e) = bees (placeAt s e) @ [b]"
    and f3: "beePlace (beeAt s3 b) = Some e"
    and f4: "\<And>x. x \<noteq> hr \<Longrightarrow> x \<noteq> e \<Longrightarrow> placeAt s3 x = placeAt s x"
    and f5: "\<And>x. (placeAt s3 x)\<lparr>bees := []\<rparr> = (placeAt s x)\<lparr>bees := []\<rparr>"
    and f6: "\<And>b'. b' \<noteq> b \<Longrightarrow> beeAt s3 b' = beeAt s b'"
    and f7: "antAt s3 = antAt s"
    using invadeStep_facts [OF assms, of b s] unfolding s3_def by blast
  obtain s' where r: "invade_forEach rnd hr entrances wave s3 = Inr s'"
    and g1: "bees (placeAt s' hr) = fold remove1 wave (bees (placeAt s3 hr))"
    and g2: "\<And>b'. b' \<in> set wave \<Longrightarrow> \<exists>e\<in>set entrances.
           b' \<in> set (bees (placeAt s' e)) \<and> beePlace (beeAt s' b') = Some e"
    and g3: "\<And>e. e \<in> set entrances \<Longrightarrow> set (bees (placeAt s3 e)) \<subseteq> set (bees (placeAt s' e))"
    and g4: "\<And>x. x \<noteq> hr \<Longrightarrow> x \<notin> set entrances \<Longrightarrow> placeAt s' x = placeAt s3 x"
    and g5: "\<And>x. (placeAt s' x)\<lparr>bees := []\<rparr> = (placeAt s3 x)\<lparr>bees := []\<rparr>"
    and g6: "\<And>b'. b' \<notin> set wave \<Longrightarrow> beeAt s' b' = beeAt s3 b'"
    and g7: "antAt s' = antAt s3"
    using Cons.IH [of s3] by blast
  have c0: "invade_forEach rnd hr entrances (b # wave) s = Inr s'"
    using r unfolding s3_def by (subst invade_forEach_Cons [OF assms(1,2)])
  have c1: "bees (placeAt s' hr) = fold remove1 (b # wave) (bees (placeAt s hr))"
    using g1 f1 by simp
  have c2: "\<exists>e\<in>set entrances. b' \<in> set (bees (placeAt s' e)) \<and> beePlace (beeAt s' b') = Some e"
    if "b' \<in> set (b # wave)" for b'
  proof (cases "b' \<in> set wave")
    case True
    then show ?thesis by (rule g2)
  next
    case False
    then have b': "b' = b" using that by simp
    have "b \<in> set (bees (placeAt s' e))" using g3 [OF e] f2 by auto
    moreover have "beePlace (beeAt s' b) = Some e" using g6 [of b] False b' f3 by simp
    ultimately show ?thesis using e b' by blast
  qed
  have c3: "set (bees (placeAt s x)) \<subseteq> set (bees (placeAt s' x))" if "x \<in> set entrances" for x
  proof -
    have "x \<noteq> hr" using that assms(3) by auto
    then have "set (bees (placeAt s x)) \<subseteq> set (bees (placeAt s3 x))"
      using f2 f4 [of x] by (cases "x = e") auto
    then show ?thesis using g3 [OF that] by blast
  qed
  have c4: "placeAt s' x = placeAt s x" if "x \<noteq> hr" "x \<notin> set entrances" for x
    using that g4 [of x] f4 [of x] e by auto
  have c5: "(placeAt s' x)\<lparr>bees := []\<rparr> = (placeAt s x)\<lparr>bees := []\<rparr>" for x
    using g5 [of x] f5 [of x] by simp
  have c6: "beeAt s' b' = beeAt s b'" if "b' \<notin> set (b # wave)" for b'
    using that g6 [of b'] f6 [of b'] by simp
  have c7: "antAt s' = antAt s" using g7 f7 by simp
  show ?case using c0 c1 c2 c3 c4 c5 c6 c7 by blast
qed

lemma fold_remove1_set:
  "distinct xs \<Longrightarrow> set (fold remove1 ws xs) = set xs - set ws \<and> distinct (fold remove1 ws xs)"
  by (induction ws arbitrary: xs) auto

lemma fold_remove1_subset: "set (fold remove1 ws xs) \<subseteq> set xs"
proof (induction ws arbitrary: xs)
  case Nil
  show ?case by simp
next
  case (Cons w ws)
  have "set (fold remove1 ws (remove1 w xs)) \<subseteq> set (remove1 w xs)" by (rule Cons.IH)
  then show ?case using set_remove1_subset [of w xs] by auto
qed

lemma addWave_loop_unfold:
  "i < numBees \<Longrightarrow>
   addWave_loop h numBees i wave s
     = addWave_loop h numBees (i + 1) (wave @ [nextBee s])
         (Place_addBee (nextBee s) (hiveRef h)
            (snd (newBee (beeArmor h) (beeDamage h) (Some (hiveRef h)) s)))"
  by (subst addWave_loop.simps) (simp add: newBee_def Let_def)

lemma addWave_loop_done: "\<not> i < numBees \<Longrightarrow> addWave_loop h numBees i wave s = (wave, s)"
  by (subst addWave_loop.simps) simp

lemma addWave_loop_spec:
  "addWave_loop h numBees i wave s = (wave', s') \<Longrightarrow>
   wave' = wave @ [nextBee s ..< nextBee s + nat (numBees - i)]
   \<and> nextBee s' = nextBee s + nat (numBees - i)
   \<and> bees (placeAt s' (hiveRef h))
       = bees (placeAt s (hiveRef h)) @ [nextBee s ..< nextBee s + nat (numBees - i)]
   \<and> (\<forall>x. x \<noteq> hiveRef h \<longrightarrow> placeAt s' x = placeAt s x)
   \<and> (\<forall>x. (placeAt s' x)\<lparr>bees := []\<rparr> = (placeAt s x)\<lparr>bees := []\<rparr>)
   \<and> (\<forall>b. b < nextBee s \<longrightarrow> beeAt s' b = beeAt s b)
   \<and> (\<forall>b. nextBee s \<le> b \<and> b < nextBee s + nat (numBees - i) \<longrightarrow>
          beeAt s' b = \<lparr>armor = beeArmor h, damage = beeDamage h, beePlace = Some (hiveRef h)\<rparr>)
   \<and> antAt s' = antAt s"
proof (induction "nat (numBees - i)" arbitrary: i wave s)
  case 0
  then have "\<not> i < numBees" by simp
  then show ?case using "0.prems" by (auto simp add: addWave_loop_done)
next
  case (Suc k)
  define n where "n = nextBee s"
  define s2 where "s2 = Place_addBee n (hiveRef h)
            (snd (newBee (beeArmor h) (beeDamage h) (Some (hiveRef h)) s))"
  have lt: "i < numBees" and k: "k = nat (numBees - (i + 1))" and kk: "nat (numBees - i) = Suc k"
    using Suc.hyps(2) by auto
  have rec: "addWave_loop h numBees (i + 1) (wave @ [n]) s2 = (wave', s')"
    using Suc.prems lt by (simp add: addWave_loop_unfold n_def s2_def)
  have t: "nextBee s2 = Suc n" "bees (placeAt s2 (hiveRef h)) = bees (placeAt s (hiveRef h)) @ [n]"
    "\<And>x. x \<noteq> hiveRef h \<Longrightarrow> placeAt s2 x = placeAt s x"
    "\<And>x. (placeAt s2 x)\<lparr>bees := []\<rparr> = (placeAt s x)\<lparr>bees := []\<rparr>"
    "\<And>b. b \<noteq> n \<Longrightarrow> beeAt s2 b = beeAt s b"
    "beeAt s2 n = \<lparr>armor = beeArmor h, damage = beeDamage h, beePlace = Some (hiveRef h)\<rparr>"
    "antAt s2 = antAt s"
    by (simp_all add: s2_def n_def bee_defs newBee_def)
  have ih: "wave' = (wave @ [n]) @ [Suc n ..< Suc n + k]
   \<and> nextBee s' = Suc n + k
   \<and> bees (placeAt s' (hiveRef h)) = bees (placeAt s2 (hiveRef h)) @ [Suc n ..< Suc n + k]
   \<and> (\<forall>x. x \<noteq> hiveRef h \<longrightarrow> placeAt s' x = placeAt s2 x)
   \<and> (\<forall>x. (placeAt s' x)\<lparr>bees := []\<rparr> = (placeAt s2 x)\<lparr>bees := []\<rparr>)
   \<and> (\<forall>b. b < Suc n \<longrightarrow> beeAt s' b = beeAt s2 b)
   \<and> (\<forall>b. Suc n \<le> b \<and> b < Suc n + k \<longrightarrow>
          beeAt s' b = \<lparr>armor = beeArmor h, damage = beeDamage h, beePlace = Some (hiveRef h)\<rparr>)
   \<and> antAt s' = antAt s2"
    using Suc.hyps(1) [OF k rec] t(1) k by simp
  have c1: "wave' = wave @ [n ..< n + Suc k]" using ih by (simp add: upt_conv_Cons)
  have c3: "bees (placeAt s' (hiveRef h)) = bees (placeAt s (hiveRef h)) @ [n ..< n + Suc k]"
    using ih t(2) by (simp add: upt_conv_Cons)
  have c7: "beeAt s' b = \<lparr>armor = beeArmor h, damage = beeDamage h, beePlace = Some (hiveRef h)\<rparr>"
    if "n \<le> b \<and> b < n + Suc k" for b
  proof (cases "b = n")
    case True
    then show ?thesis using ih t(6) by simp
  next
    case False
    then show ?thesis using ih that by simp
  qed
  have c6: "\<forall>b. b < n \<longrightarrow> beeAt s' b = beeAt s b" using ih t(5) by simp
  have c4: "\<forall>x. x \<noteq> hiveRef h \<longrightarrow> placeAt s' x = placeAt s x" using ih t(3) by simp
  have c5: "\<forall>x. (placeAt s' x)\<lparr>bees := []\<rparr> = (placeAt s x)\<lparr>bees := []\<rparr>" using ih t(4) by simp
  show ?case
    unfolding kk n_def [symmetric] using c1 c3 c4 c5 c6 c7 ih t(7) by simp
qed

lemma addWave_spec:
  "waves (fst (Hive_addWave t n h s)) = (waves h)(t \<mapsto> [nextBee s ..< nextBee s + nat n])
   \<and> hiveRef (fst (Hive_addWave t n h s)) = hiveRef h
   \<and> nextBee (snd (Hive_addWave t n h s)) = nextBee s + nat n
   \<and> bees (placeAt (snd (Hive_addWave t n h s)) (hiveRef h))
       = bees (placeAt s (hiveRef h)) @ [nextBee s ..< nextBee s + nat n]
   \<and> (\<forall>x. x \<noteq> hiveRef h \<longrightarrow> placeAt (snd (Hive_addWave t n h s)) x = placeAt s x)
   \<and> (\<forall>x. (placeAt (snd (Hive_addWave t n h s)) x)\<lparr>bees := []\<rparr> = (placeAt s x)\<lparr>bees := []\<rparr>)
   \<and> (\<forall>b. b < nextBee s \<longrightarrow> beeAt (snd (Hive_addWave t n h s)) b = beeAt s b)
   \<and> (\<forall>b. nextBee s \<le> b \<and> b < nextBee s + nat n \<longrightarrow>
          beeAt (snd (Hive_addWave t n h s)) b
            = \<lparr>armor = beeArmor h, damage = beeDamage h, beePlace = Some (hiveRef h)\<rparr>)
   \<and> antAt (snd (Hive_addWave t n h s)) = antAt s"
proof -
  obtain wave s1 where l: "addWave_loop h n 0 [] s = (wave, s1)"
    by (cases "addWave_loop h n 0 [] s") auto
  have r: "Hive_addWave t n h s = (h\<lparr>waves := (waves h)(t \<mapsto> wave)\<rparr>, s1)"
    by (simp add: Hive_addWave_def l)
  show ?thesis using addWave_loop_spec [OF l] by (simp add: r)
qed

lemma invade_scheduled:
  assumes "waves h t = Some wave" "randomSource rnd" "beeEntrances c \<noteq> []"
    "hiveRef h \<notin> set (beeEntrances c)"
  shows "\<exists>s'. Hive_invade rnd h c t s = Inr (wave, s')
          \<and> (\<forall>b\<in>set wave. \<exists>e\<in>set (beeEntrances c).
                b \<in> set (bees (placeAt s' e)) \<and> beePlace (beeAt s' b) = Some e)
          \<and> (distinct (bees (placeAt s (hiveRef h))) \<longrightarrow>
                set (bees (placeAt s' (hiveRef h))) = set (bees (placeAt s (hiveRef h))) - set wave)
          \<and> set (bees (placeAt s' (hiveRef h))) \<subseteq> set (bees (placeAt s (hiveRef h)))
          \<and> (\<forall>x. x \<noteq> hiveRef h \<and> x \<notin> set (beeEntrances c) \<longrightarrow> placeAt s' x = placeAt s x)
          \<and> (\<forall>x. (placeAt s' x)\<lparr>bees := []\<rparr> = (placeAt s x)\<lparr>bees := []\<rparr>)
          \<and> (\<forall>b. b \<notin> set wave \<longrightarrow> beeAt s' b = beeAt s b)"
proof -
  obtain s' where r: "invade_forEach rnd (hiveRef h) (beeEntrances c) wave s = Inr s'"
    and g1: "bees (placeAt s' (hiveRef h)) = fold remove1 wave (bees (placeAt s (hiveRef h)))"
    and g2: "\<forall>b\<in>set wave. \<exists>e\<in>set (beeEntrances c).
           b \<in> set (bees (placeAt s' e)) \<and> beePlace (beeAt s' b) = Some e"
    and g4: "\<forall>x. x \<noteq> hiveRef h \<and> x \<notin> set (beeEntrances c) \<longrightarrow> placeAt s' x = placeAt s x"
    and g5: "\<forall>x. (placeAt s' x)\<lparr>bees := []\<rparr> = (placeAt s x)\<lparr>bees := []\<rparr>"
    and g6: "\<forall>b. b \<notin> set wave \<longrightarrow> beeAt s' b = beeAt s b"
    using invade_forEach_spec [OF assms(2,3,4), of wave s] by blast
  have i: "Hive_invade rnd h c t s = Inr (wave, s')"
    by (simp add: Hive_invade_def assms(1) AntColony_getEntrances_def r)
  have d: "distinct (bees (placeAt s (hiveRef h))) \<longrightarrow>
                set (bees (placeAt s' (hiveRef h))) = set (bees (placeAt s (hiveRef h))) - set wave"
    using fold_remove1_set [of "bees (placeAt s (hiveRef h))" wave] g1 by simp
  have u: "set (bees (placeAt s' (hiveRef h))) \<subseteq> set (bees (placeAt s (hiveRef h)))"
    using fold_remove1_subset [of wave "bees (placeAt s (hiveRef h))"] g1 by simp
  show ?thesis using i g2 d u g4 g5 g6 by blast
qed

text \<open>The wave of the small game, and the game without tunnels.\<close>

lemma demoWave_fields:
  "waves (fst demoWave) 0 = Some [0, 1]" "waves (fst demoWave) 6 = None"
  "hiveRef (fst demoWave) = 0" "bees (placeAt (snd demoWave) 0) = [0, 1]"
  using addWave_spec [of 0 2 "fst demoHive" demoDeployed] demoDeployed_places(1)
  by (simp_all add: demoWave_def demoDeployed_nextBee demoHive_ref demoHive_waves upt_conv_Cons)

lemma noTunnels_hive: "hiveRef (hive noTunnelsGame) = 0"
  by (simp add: noTunnelsGame_def newAntGame_def Hive_addWave_def split_beta demoHive_ref)

lemma noTunnels_fields:
  "beeEntrances (fst noTunnels) = []" "places (fst noTunnels) = []"
  "waves (hive noTunnelsGame) 0 = Some [0, 1]" "turn noTunnelsGame = 0"
  "colony noTunnelsGame = fst noTunnels"
     apply code_simp
    apply code_simp
   apply (simp add: noTunnelsGame_def newAntGame_def)
  using addWave_spec [of 0 2 "fst demoHive" "snd demoHive"]
   apply (simp add: demoHive_def newHive_def newPlace_def emptyStore_def upt_conv_Cons split_beta)
  apply (simp_all add: noTunnelsGame_def newAntGame_def)
  done

text \<open>
  Claim C8, as the code has it. When no wave is scheduled for the turn, \<^verbatim>\<open>invade\<close> returns the
  empty list and changes nothing. When a wave is scheduled, the random source returns
  numbers in \<open>[0, 1)\<close>, the colony has at least one entrance and the hive is not itself one of
  them, \<^verbatim>\<open>invade\<close> returns the wave; afterwards every bee of the wave is in the bee list of
  some entrance of the colony, with its back-reference set to that entrance; the hive's pen
  has lost bees only, and exactly the bees of the wave when it held each bee once; places
  other than the hive and the entrances are unchanged, and of every place only the bee list
  can change. \<^verbatim>\<open>addWave(t, n)\<close> schedules for \<open>t\<close> the wave of the \<open>n\<close> fresh bees it creates and
  appends them to the pen. The hive is never an entrance of a colony built before or after
  it (with tunnels of length at least one).
\<close>

theorem invade_releases_wave:
  "(waves h t = None \<longrightarrow> Hive_invade rnd h c t s = Inr ([], s))
   \<and> (waves h t = Some wave \<and> randomSource rnd \<and> beeEntrances c \<noteq> []
        \<and> hiveRef h \<notin> set (beeEntrances c) \<longrightarrow>
       (\<exists>s'. Hive_invade rnd h c t s = Inr (wave, s')
          \<and> (\<forall>b\<in>set wave. \<exists>e\<in>set (beeEntrances c).
                b \<in> set (bees (placeAt s' e)) \<and> beePlace (beeAt s' b) = Some e)
          \<and> (distinct (bees (placeAt s (hiveRef h))) \<longrightarrow>
                set (bees (placeAt s' (hiveRef h))) = set (bees (placeAt s (hiveRef h))) - set wave)
          \<and> set (bees (placeAt s' (hiveRef h))) \<subseteq> set (bees (placeAt s (hiveRef h)))
          \<and> (\<forall>x. x \<noteq> hiveRef h \<and> x \<notin> set (beeEntrances c) \<longrightarrow> placeAt s' x = placeAt s x)
          \<and> (\<forall>x. (placeAt s' x)\<lparr>bees := []\<rparr> = (placeAt s x)\<lparr>bees := []\<rparr>)
          \<and> (\<forall>b. b \<notin> set wave \<longrightarrow> beeAt s' b = beeAt s b)))
   \<and> waves (fst (Hive_addWave t n h s)) t = Some [nextBee s ..< nextBee s + nat n]
   \<and> length [nextBee s ..< nextBee s + nat n] = nat n
   \<and> hiveRef (fst (Hive_addWave t n h s)) = hiveRef h
   \<and> bees (placeAt (snd (Hive_addWave t n h s)) (hiveRef h))
       = bees (placeAt s (hiveRef h)) @ [nextBee s ..< nextBee s + nat n]
   \<and> (1 \<le> L \<and> newAntColony startingFood T L m s0 = (c0, s1)
        \<and> (hiveRef h < nextPlace s0 \<or> nextPlace s1 \<le> hiveRef h) \<longrightarrow>
       hiveRef h \<notin> set (beeEntrances c0))"
proof (intro conjI impI)
  show "Hive_invade rnd h c t s = Inr ([], s)" if "waves h t = None"
    using that by (simp add: Hive_invade_def)
  show "\<exists>s'. Hive_invade rnd h c t s = Inr (wave, s')
          \<and> (\<forall>b\<in>set wave. \<exists>e\<in>set (beeEntrances c).
                b \<in> set (bees (placeAt s' e)) \<and> beePlace (beeAt s' b) = Some e)
          \<and> (distinct (bees (placeAt s (hiveRef h))) \<longrightarrow>
                set (bees (placeAt s' (hiveRef h))) = set (bees (placeAt s (hiveRef h))) - set wave)
          \<and> set (bees (placeAt s' (hiveRef h))) \<subseteq> set (bees (placeAt s (hiveRef h)))
          \<and> (\<forall>x. x \<noteq> hiveRef h \<and> x \<notin> set (beeEntrances c) \<longrightarrow> placeAt s' x = placeAt s x)
          \<and> (\<forall>x. (placeAt s' x)\<lparr>bees := []\<rparr> = (placeAt s x)\<lparr>bees := []\<rparr>)
          \<and> (\<forall>b. b \<notin> set wave \<longrightarrow> beeAt s' b = beeAt s b)"
    if "waves h t = Some wave \<and> randomSource rnd \<and> beeEntrances c \<noteq> []
        \<and> hiveRef h \<notin> set (beeEntrances c)"
    using that by (intro invade_scheduled) simp_all
  show "waves (fst (Hive_addWave t n h s)) t = Some [nextBee s ..< nextBee s + nat n]"
    using addWave_spec [of t n h s] by simp
  show "length [nextBee s ..< nextBee s + nat n] = nat n" by simp
  show "hiveRef (fst (Hive_addWave t n h s)) = hiveRef h"
    using addWave_spec [of t n h s] by simp
  show "bees (placeAt (snd (Hive_addWave t n h s)) (hiveRef h))
       = bees (placeAt s (hiveRef h)) @ [nextBee s ..< nextBee s + nat n]"
    using addWave_spec [of t n h s] by simp
  show "hiveRef h \<notin> set (beeEntrances c0)"
    if "1 \<le> L \<and> newAntColony startingFood T L m s0 = (c0, s1)
        \<and> (hiveRef h < nextPlace s0 \<or> nextPlace s1 \<le> hiveRef h)"
    using that newAntColony_entrances_fresh [of L startingFood T m s0 c0 s1 "hiveRef h"]
    by auto
qed

text \<open>
  In the small game \<^verbatim>\<open>addWave(0, 2)\<close> puts the bees 0 and 1 in the pen of the hive (place 0);
  \<^verbatim>\<open>invade\<close> at turn 0 moves both to place 3, the only entrance; at turn 6, with no wave, it
  returns the empty list and the same store.
\<close>

theorem invade_releases_wave_witness:
  "waves (fst demoWave) 0 = Some [0, 1] \<and> randomSource zeroRandom
   \<and> beeEntrances (fst demoColony) = [3] \<and> hiveRef (fst demoWave) = 0
   \<and> bees (placeAt (snd demoWave) 0) = [0, 1]
   \<and> (\<exists>s'. Hive_invade zeroRandom (fst demoWave) (fst demoColony) 0 (snd demoWave) = Inr ([0, 1], s')
         \<and> 0 \<in> set (bees (placeAt s' 3)) \<and> 1 \<in> set (bees (placeAt s' 3))
         \<and> beePlace (beeAt s' 0) = Some 3 \<and> beePlace (beeAt s' 1) = Some 3
         \<and> bees (placeAt s' 0) = [])
   \<and> waves (fst demoWave) 6 = None
   \<and> Hive_invade zeroRandom (fst demoWave) (fst demoColony) 6 (snd demoWave) = Inr ([], snd demoWave)"
proof -
  note f = demoWave_fields demoColony_fields(3) zeroRandom_source
  have pre: "waves (fst demoWave) 0 = Some [0, 1] \<and> randomSource zeroRandom
      \<and> beeEntrances (fst demoColony) \<noteq> []
      \<and> hiveRef (fst demoWave) \<notin> set (beeEntrances (fst demoColony))"
    by (simp add: f)
  obtain s' where r: "Hive_invade zeroRandom (fst demoWave) (fst demoColony) 0 (snd demoWave)
                        = Inr ([0, 1], s')"
    and a: "\<forall>b\<in>set [0, 1]. \<exists>e\<in>set (beeEntrances (fst demoColony)).
                b \<in> set (bees (placeAt s' e)) \<and> beePlace (beeAt s' b) = Some e"
    and d: "distinct (bees (placeAt (snd demoWave) (hiveRef (fst demoWave)))) \<longrightarrow>
                set (bees (placeAt s' (hiveRef (fst demoWave))))
                  = set (bees (placeAt (snd demoWave) (hiveRef (fst demoWave)))) - set [0, 1]"
    using invade_releases_wave
            [of "fst demoWave" 0 zeroRandom "fst demoColony" "snd demoWave" "[0, 1]",
             THEN conjunct2, THEN conjunct1, rule_format, OF pre]
    by blast
  have a': "0 \<in> set (bees (placeAt s' 3)) \<and> 1 \<in> set (bees (placeAt s' 3))
         \<and> beePlace (beeAt s' 0) = Some 3 \<and> beePlace (beeAt s' 1) = Some 3"
    using a by (simp add: f)
  have d': "bees (placeAt s' 0) = []" using d by (simp add: f)
  have none: "Hive_invade zeroRandom (fst demoWave) (fst demoColony) 6 (snd demoWave)
                = Inr ([], snd demoWave)"
    using invade_releases_wave [of "fst demoWave" 6 zeroRandom "fst demoColony" "snd demoWave"]
    by (simp add: f)
  show ?thesis using r a' d' none by (simp add: f)
qed

text \<open>
  With a colony of no tunnel the entrance list is empty, and \<^verbatim>\<open>invade\<close> at the turn of a
  scheduled wave raises instead of returning the wave.
\<close>

theorem invade_no_entrance_counterexample:
  "waves (hive noTunnelsGame) 0 = Some [0, 1]
   \<and> beeEntrances (colony noTunnelsGame) = []
   \<and> Hive_invade zeroRandom (hive noTunnelsGame) (colony noTunnelsGame) 0 (snd noTunnels)
       = Inl (TypeError, snd (Math_random zeroRandom (Place_removeBee 0 0 (snd noTunnels))))"
  by (simp add: Hive_invade_def noTunnels_fields noTunnels_hive AntColony_getEntrances_def
        Let_def split_beta)

section \<open>Commands on a name that is no index\<close>

text \<open>
  The grid answers its length under \<^verbatim>\<open>length\<close>, and reading a property of a number does not
  raise. The commands then meet a value that is no place: \<^verbatim>\<open>deployAnt\<close> reports the lack of
  food before it uses the place, \<^verbatim>\<open>boostAnt\<close> the lack of the boost, and only past these tests
  the use of the place raises and the command reports an illegal location.
\<close>

lemma length_no_index:
  "splitComma ''length'' = [''length'']" "arrayIndex ''length'' = None"
  by code_simp+

lemma lookupPlace_length:
  "lookupPlace raises c ''length'' = (if raises ''length'' None then Inl TypeError else Inr None)"
  by (simp add: lookupPlace_def length_no_index Let_def del: splitComma.simps)

lemma commands_at_length:
  assumes "\<not> raises ''length'' None"
  shows "fst (AntGame_deployAnt env raises ''grower'' ''length'' g s)
           = Some (if costOf env GrowerAnt \<le> food (colony g) then ''illegal location''
                   else ''not enough food'')"
    "fst (AntGame_removeAnt raises ''length'' g s) = Some ''illegal location''"
    "fst (AntGame_boostAnt inherited raises b ''length'' g s)
           = Some (if boostsAt inherited (colony g) b = None
                      \<or> lessThanOne (the (boostsAt inherited (colony g) b))
                   then ''no such boost'' else ''illegal location'')"
proof -
  have g: "antClassNamed (toLowerCase ''grower'') = Some GrowerAnt" by code_simp
  show "fst (AntGame_deployAnt env raises ''grower'' ''length'' g s)
           = Some (if costOf env GrowerAnt \<le> food (colony g) then ''illegal location''
                   else ''not enough food'')"
    using assms
    by (simp add: AntGame_deployAnt_def g lookupPlace_length newAnt_def Ant_getFoodCost_def
          Let_def split_beta)
  show "fst (AntGame_removeAnt raises ''length'' g s) = Some ''illegal location''"
    using assms by (simp add: AntGame_removeAnt_def lookupPlace_length)
  show "fst (AntGame_boostAnt inherited raises b ''length'' g s)
           = Some (if boostsAt inherited (colony g) b = None
                      \<or> lessThanOne (the (boostsAt inherited (colony g) b))
                   then ''no such boost'' else ''illegal location'')"
    using assms by (simp add: AntGame_boostAnt_def lookupPlace_length)
qed

section \<open>Turns\<close>

lemma invade_forEach_returns:
  assumes "randomSource rnd" "entrances \<noteq> []"
  shows "\<exists>s'. invade_forEach rnd hr entrances wave s = Inr s'"
proof (induction wave arbitrary: s)
  case Nil
  show ?case by simp
next
  case (Cons b wave)
  show ?case
    using Cons.IH [of "invadeStep rnd hr entrances b s"]
    by (subst invade_forEach_Cons [OF assms])
qed

lemma invade_returns:
  assumes "randomSource rnd" "beeEntrances c \<noteq> [] \<or> waves h t = None"
  shows "\<exists>wave s'. Hive_invade rnd h c t s = Inr (wave, s')"
proof (cases "waves h t")
  case None
  then show ?thesis by (simp add: Hive_invade_def)
next
  case (Some wave)
  then have "beeEntrances c \<noteq> []" using assms(2) by simp
  then obtain s' where "invade_forEach rnd (hiveRef h) (beeEntrances c) wave s = Inr s'"
    using invade_forEach_returns [OF assms(1)] by blast
  then show ?thesis by (simp add: Hive_invade_def Some AntColony_getEntrances_def)
qed

lemma takeTurn_returns_iff:
  "AntGame_takeTurn env rnd g s = Inr (g', s') \<longleftrightarrow>
     (\<exists>c1 s1 s2 wave. AntColony_antsAct env (colony g) s = Inr (c1, s1)
        \<and> AntColony_beesAct env c1 s1 = Inr s2
        \<and> Hive_invade rnd (hive g) c1 (turn g) (AntColony_placesAct c1 s2) = Inr (wave, s')
        \<and> g' = g\<lparr>colony := c1, turn := turn g + 1\<rparr>)"
  by (auto simp: AntGame_takeTurn_def Let_def split: sum.splits prod.splits)

lemma invade_no_entrance:
  "waves h t = Some (b # rest) \<Longrightarrow> beeEntrances c = [] \<Longrightarrow>
   Hive_invade rnd h c t s
     = Inl (TypeError, snd (Math_random rnd (Place_removeBee b (hiveRef h) s)))"
  by (simp add: Hive_invade_def AntColony_getEntrances_def Let_def split_beta)

lemma invade_raises_iff:
  assumes "randomSource rnd"
  shows "isl (Hive_invade rnd h c t s)
           \<longleftrightarrow> beeEntrances c = [] \<and> (\<exists>b rest. waves h t = Some (b # rest))"
proof (cases "beeEntrances c = [] \<and> (\<exists>b rest. waves h t = Some (b # rest))")
  case True
  then show ?thesis using invade_no_entrance [of h t _ _ c rnd s] by auto
next
  case False
  show ?thesis
  proof (cases "waves h t = Some []")
    case True
    then show ?thesis by (simp add: Hive_invade_def)
  next
    case notempty: False
    have "beeEntrances c \<noteq> [] \<or> waves h t = None"
    proof (cases "waves h t")
      case None
      then show ?thesis by simp
    next
      case (Some wave)
      then obtain b rest where "wave = b # rest" using notempty by (cases wave) auto
      then show ?thesis using False Some by simp
    qed
    then obtain wave s' where "Hive_invade rnd h c t s = Inr (wave, s')"
      using invade_returns [OF assms] by blast
    then show ?thesis using False by simp
  qed
qed

lemma takeTurn_raises_iff:
  "AntGame_takeTurn env rnd g s = Inl (e, g', s') \<longleftrightarrow>
     (\<exists>c1. AntColony_antsAct env (colony g) s = Inl (e, c1, s') \<and> g' = g\<lparr>colony := c1\<rparr>)
     \<or> (\<exists>c1 s1. AntColony_antsAct env (colony g) s = Inr (c1, s1) \<and> g' = g\<lparr>colony := c1\<rparr>
           \<and> (AntColony_beesAct env c1 s1 = Inl (e, s')
               \<or> (\<exists>s2. AntColony_beesAct env c1 s1 = Inr s2
                     \<and> Hive_invade rnd (hive g) c1 (turn g) (AntColony_placesAct c1 s2)
                         = Inl (e, s'))))"
  by (auto simp: AntGame_takeTurn_def Let_def split: sum.splits prod.splits)

lemma takeTurn_raise_keeps_turn:
  "AntGame_takeTurn env rnd g s = Inl (e, g', s') \<Longrightarrow> turn g' = turn g \<and> hive g' = hive g"
  by (auto simp: takeTurn_raises_iff)

lemma takeTurn_isl_iff:
  "isl (AntGame_takeTurn env rnd g s) \<longleftrightarrow>
     isl (AntColony_antsAct env (colony g) s)
     \<or> (\<exists>c1 s1. AntColony_antsAct env (colony g) s = Inr (c1, s1)
           \<and> (isl (AntColony_beesAct env c1 s1)
               \<or> (\<exists>s2. AntColony_beesAct env c1 s1 = Inr s2
                     \<and> isl (Hive_invade rnd (hive g) c1 (turn g) (AntColony_placesAct c1 s2)))))"
  by (auto simp: AntGame_takeTurn_def Let_def split: sum.splits prod.splits)

lemma takeTurn_returns:
  assumes "AntColony_antsAct env (colony g) s = Inr (c1, s1)"
    "AntColony_beesAct env c1 s1 = Inr s2" "randomSource rnd"
    "beeEntrances c1 \<noteq> [] \<or> waves (hive g) (turn g) = None"
  shows "\<exists>s'. AntGame_takeTurn env rnd g s = Inr (g\<lparr>colony := c1, turn := turn g + 1\<rparr>, s')"
proof -
  obtain wave s' where
    "Hive_invade rnd (hive g) c1 (turn g) (AntColony_placesAct c1 s2) = Inr (wave, s')"
    using invade_returns [OF assms(3,4)] by blast
  then show ?thesis using assms(1,2) by (simp add: AntGame_takeTurn_def)
qed

lemma commands_keep_turn:
  "turn (fst (snd (AntGame_deployAnt env raises antType coords g s))) = turn g"
  "turn (fst (snd (AntGame_removeAnt raises coords g s))) = turn g"
  "turn (fst (snd (AntGame_boostAnt inherited raises b coords g s))) = turn g"
  by (auto simp: AntGame_deployAnt_def AntGame_removeAnt_def AntGame_boostAnt_def Let_def
        split_beta split: option.splits sum.splits)

lemma takeTurns_turn:
  "takeTurns env rnd n g s = Inr (g', s') \<Longrightarrow> turn g' = turn g + int n"
proof (induction n arbitrary: g s)
  case 0
  then show ?case by simp
next
  case (Suc n)
  from Suc.prems obtain g1 s1 where t: "AntGame_takeTurn env rnd g s = Inr (g1, s1)"
    and r: "takeTurns env rnd n g1 s1 = Inr (g', s')"
    by (auto split: sum.splits)
  have "turn g1 = turn g + 1" using t by (auto simp: takeTurn_returns_iff)
  then show ?case using Suc.IH [OF r] by simp
qed

lemma takeTurns_raise_turn:
  "takeTurns env rnd n g s = Inl (e, g', s') \<Longrightarrow> \<exists>k<n. turn g' = turn g + int k"
proof (induction n arbitrary: g s)
  case 0
  then show ?case by simp
next
  case (Suc n)
  show ?case
  proof (cases "AntGame_takeTurn env rnd g s")
    case (Inl x)
    then have "AntGame_takeTurn env rnd g s = Inl (e, g', s')" using Suc.prems by simp
    then have "turn g' = turn g + int 0" using takeTurn_raise_keeps_turn by fastforce
    then show ?thesis by blast
  next
    case (Inr y)
    obtain g1 s1 where y: "y = (g1, s1)" by (cases y)
    have t: "turn g1 = turn g + 1" using Inr y by (auto simp: takeTurn_returns_iff)
    have "takeTurns env rnd n g1 s1 = Inl (e, g', s')" using Suc.prems Inr y by simp
    then obtain k where "k < n" "turn g' = turn g1 + int k" using Suc.IH by blast
    then have "Suc k < Suc n \<and> turn g' = turn g + int (Suc k)" using t by simp
    then show ?thesis by blast
  qed
qed

text \<open>
  Claim C3, as the code has it. A call of \<^verbatim>\<open>takeTurn\<close> returns exactly when the four phases
  return in their order, each on the state the one before left: the ants act on the
  colony, the bees act, the places act, and \<^verbatim>\<open>invade\<close> runs with the turn number not yet
  incremented; the returned game then has the turn counter incremented by one. The call
  returns whenever the actions of the insects return and the colony has an entrance or no
  wave is due. It raises exactly when a phase raises, with the state that phase left, and
  then the turn counter is what it was before the call; \<^verbatim>\<open>invade\<close> raises exactly when a wave
  that is not empty is due and the colony has no entrance. A new game starts at turn 0, the
  commands \<^verbatim>\<open>deployAnt\<close>, \<^verbatim>\<open>removeAnt\<close> and \<^verbatim>\<open>boostAnt\<close> leave the counter as it is, after \<open>n\<close>
  turns that returned the counter has grown by \<open>n\<close>, and when a run of turns stops at a raise
  the counter has grown by the number of turns that returned before.
\<close>

theorem takeTurn_phases:
  "(AntGame_takeTurn env rnd g s = Inr (g', s') \<longleftrightarrow>
     (\<exists>c1 s1 s2 wave. AntColony_antsAct env (colony g) s = Inr (c1, s1)
        \<and> AntColony_beesAct env c1 s1 = Inr s2
        \<and> Hive_invade rnd (hive g) c1 (turn g) (AntColony_placesAct c1 s2) = Inr (wave, s')
        \<and> g' = g\<lparr>colony := c1, turn := turn g + 1\<rparr>))
   \<and> (AntColony_antsAct env (colony g) s = Inr (c1, s1)
        \<and> AntColony_beesAct env c1 s1 = Inr s2 \<and> randomSource rnd
        \<and> (beeEntrances c1 \<noteq> [] \<or> waves (hive g) (turn g) = None) \<longrightarrow>
       (\<exists>s'. AntGame_takeTurn env rnd g s = Inr (g\<lparr>colony := c1, turn := turn g + 1\<rparr>, s')))
   \<and> (isl (AntGame_takeTurn env rnd g s) \<longleftrightarrow>
        isl (AntColony_antsAct env (colony g) s)
        \<or> (\<exists>c1 s1. AntColony_antsAct env (colony g) s = Inr (c1, s1)
              \<and> (isl (AntColony_beesAct env c1 s1)
                  \<or> (\<exists>s2. AntColony_beesAct env c1 s1 = Inr s2
                        \<and> isl (Hive_invade rnd (hive g) c1 (turn g) (AntColony_placesAct c1 s2))))))
   \<and> (AntGame_takeTurn env rnd g s = Inl (e, g', s') \<longleftrightarrow>
        (\<exists>c1. AntColony_antsAct env (colony g) s = Inl (e, c1, s') \<and> g' = g\<lparr>colony := c1\<rparr>)
        \<or> (\<exists>c1 s1. AntColony_antsAct env (colony g) s = Inr (c1, s1) \<and> g' = g\<lparr>colony := c1\<rparr>
              \<and> (AntColony_beesAct env c1 s1 = Inl (e, s')
                  \<or> (\<exists>s2. AntColony_beesAct env c1 s1 = Inr s2
                        \<and> Hive_invade rnd (hive g) c1 (turn g) (AntColony_placesAct c1 s2)
                            = Inl (e, s')))))
   \<and> (AntGame_takeTurn env rnd g s = Inl (e, g', s') \<longrightarrow> turn g' = turn g \<and> hive g' = hive g)
   \<and> (randomSource rnd \<longrightarrow>
        (isl (Hive_invade rnd h c t s)
           \<longleftrightarrow> beeEntrances c = [] \<and> (\<exists>b rest. waves h t = Some (b # rest))))
   \<and> (waves h t = Some (b # rest) \<and> beeEntrances c = [] \<longrightarrow>
        Hive_invade rnd h c t s
          = Inl (TypeError, snd (Math_random rnd (Place_removeBee b (hiveRef h) s))))
   \<and> turn (newAntGame c h) = 0
   \<and> turn (fst (snd (AntGame_deployAnt env raises antType coords g s))) = turn g
   \<and> turn (fst (snd (AntGame_removeAnt raises coords g s))) = turn g
   \<and> turn (fst (snd (AntGame_boostAnt inherited raises boostType coords g s))) = turn g
   \<and> (takeTurns env rnd n g s = Inr (g', s') \<longrightarrow> turn g' = turn g + int n)
   \<and> (takeTurns env rnd n g s = Inl (e, g', s') \<longrightarrow> (\<exists>k<n. turn g' = turn g + int k))"
proof (intro conjI)
  show "AntGame_takeTurn env rnd g s = Inr (g', s') \<longleftrightarrow>
     (\<exists>c1 s1 s2 wave. AntColony_antsAct env (colony g) s = Inr (c1, s1)
        \<and> AntColony_beesAct env c1 s1 = Inr s2
        \<and> Hive_invade rnd (hive g) c1 (turn g) (AntColony_placesAct c1 s2) = Inr (wave, s')
        \<and> g' = g\<lparr>colony := c1, turn := turn g + 1\<rparr>)"
    by (rule takeTurn_returns_iff)
  show "AntColony_antsAct env (colony g) s = Inr (c1, s1)
        \<and> AntColony_beesAct env c1 s1 = Inr s2 \<and> randomSource rnd
        \<and> (beeEntrances c1 \<noteq> [] \<or> waves (hive g) (turn g) = None) \<longrightarrow>
       (\<exists>s'. AntGame_takeTurn env rnd g s = Inr (g\<lparr>colony := c1, turn := turn g + 1\<rparr>, s'))"
    using takeTurn_returns [of env g s c1 s1 s2 rnd] by blast
  show "isl (AntGame_takeTurn env rnd g s) \<longleftrightarrow>
        isl (AntColony_antsAct env (colony g) s)
        \<or> (\<exists>c1 s1. AntColony_antsAct env (colony g) s = Inr (c1, s1)
              \<and> (isl (AntColony_beesAct env c1 s1)
                  \<or> (\<exists>s2. AntColony_beesAct env c1 s1 = Inr s2
                        \<and> isl (Hive_invade rnd (hive g) c1 (turn g) (AntColony_placesAct c1 s2)))))"
    by (rule takeTurn_isl_iff)
  show "AntGame_takeTurn env rnd g s = Inl (e, g', s') \<longleftrightarrow>
        (\<exists>c1. AntColony_antsAct env (colony g) s = Inl (e, c1, s') \<and> g' = g\<lparr>colony := c1\<rparr>)
        \<or> (\<exists>c1 s1. AntColony_antsAct env (colony g) s = Inr (c1, s1) \<and> g' = g\<lparr>colony := c1\<rparr>
              \<and> (AntColony_beesAct env c1 s1 = Inl (e, s')
                  \<or> (\<exists>s2. AntColony_beesAct env c1 s1 = Inr s2
                        \<and> Hive_invade rnd (hive g) c1 (turn g) (AntColony_placesAct c1 s2)
                            = Inl (e, s'))))"
    by (rule takeTurn_raises_iff)
  show "AntGame_takeTurn env rnd g s = Inl (e, g', s') \<longrightarrow> turn g' = turn g \<and> hive g' = hive g"
    using takeTurn_raise_keeps_turn [of env rnd g s e g' s'] by blast
  show "randomSource rnd \<longrightarrow>
        (isl (Hive_invade rnd h c t s)
           \<longleftrightarrow> beeEntrances c = [] \<and> (\<exists>b rest. waves h t = Some (b # rest)))"
    using invade_raises_iff [of rnd h c t s] by blast
  show "waves h t = Some (b # rest) \<and> beeEntrances c = [] \<longrightarrow>
        Hive_invade rnd h c t s
          = Inl (TypeError, snd (Math_random rnd (Place_removeBee b (hiveRef h) s)))"
    using invade_no_entrance [of h t b rest c rnd s] by blast
  show "turn (newAntGame c h) = 0" by (simp add: newAntGame_def)
  show "turn (fst (snd (AntGame_deployAnt env raises antType coords g s))) = turn g"
    by (rule commands_keep_turn)
  show "turn (fst (snd (AntGame_removeAnt raises coords g s))) = turn g"
    by (rule commands_keep_turn)
  show "turn (fst (snd (AntGame_boostAnt inherited raises boostType coords g s))) = turn g"
    by (rule commands_keep_turn)
  show "takeTurns env rnd n g s = Inr (g', s') \<longrightarrow> turn g' = turn g + int n"
    using takeTurns_turn [of env rnd n g s g' s'] by blast
  show "takeTurns env rnd n g s = Inl (e, g', s') \<longrightarrow> (\<exists>k<n. turn g' = turn g + int k)"
    using takeTurns_raise_turn [of env rnd n g s e g' s'] by blast
qed

text \<open>
  In the small game with idle insects, the first turn with the wave of two bees due returns
  and the counter goes from 0 to 1. In the game without tunnels the first turn raises in
  \<^verbatim>\<open>invade\<close>, with bee 0 already taken from the pen, and the counter is still 0.
\<close>

theorem takeTurn_phases_witness:
  "AntColony_antsAct idleInsects (colony demoGame) (snd demoWave) = Inr (colony demoGame, snd demoWave)
   \<and> AntColony_beesAct idleInsects (colony demoGame) (snd demoWave) = Inr (snd demoWave)
   \<and> randomSource zeroRandom \<and> beeEntrances (colony demoGame) \<noteq> []
   \<and> turn demoGame = 0
   \<and> (\<exists>s'. AntGame_takeTurn idleInsects zeroRandom demoGame (snd demoWave)
              = Inr (demoGame\<lparr>colony := colony demoGame, turn := 1\<rparr>, s'))
   \<and> AntGame_takeTurn idleInsects zeroRandom noTunnelsGame (snd noTunnels)
       = Inl (TypeError, noTunnelsGame,
              snd (Math_random zeroRandom (Place_removeBee 0 0 (snd noTunnels))))
   \<and> turn noTunnelsGame = 0"
proof -
  have pre: "AntColony_antsAct idleInsects (colony demoGame) (snd demoWave)
        = Inr (colony demoGame, snd demoWave)
        \<and> AntColony_beesAct idleInsects (colony demoGame) (snd demoWave) = Inr (snd demoWave)
        \<and> randomSource zeroRandom
        \<and> (beeEntrances (colony demoGame) \<noteq> [] \<or> waves (hive demoGame) (turn demoGame) = None)"
    by (simp add: idle_acts zeroRandom_source demoGame_fields demoColony_fields)
  have "\<exists>s'. AntGame_takeTurn idleInsects zeroRandom demoGame (snd demoWave)
              = Inr (demoGame\<lparr>colony := colony demoGame, turn := turn demoGame + 1\<rparr>, s')"
    using takeTurn_phases
            [of idleInsects zeroRandom demoGame "snd demoWave" _ _ "colony demoGame" "snd demoWave"
               "snd demoWave",
             THEN conjunct2, THEN conjunct1, rule_format, OF pre] .
  then have ret: "\<exists>s'. AntGame_takeTurn idleInsects zeroRandom demoGame (snd demoWave)
              = Inr (demoGame\<lparr>colony := colony demoGame, turn := 1\<rparr>, s')"
    by (simp add: demoGame_fields)
  have raise: "AntGame_takeTurn idleInsects zeroRandom noTunnelsGame (snd noTunnels)
       = Inl (TypeError, noTunnelsGame,
              snd (Math_random zeroRandom (Place_removeBee 0 0 (snd noTunnels))))"
    by (simp add: AntGame_takeTurn_def idle_acts AntColony_placesAct_def Hive_invade_def
          noTunnels_fields noTunnels_hive AntColony_getEntrances_def Let_def split_beta)
  have "turn noTunnelsGame = turn noTunnelsGame \<and> hive noTunnelsGame = hive noTunnelsGame"
    by (rule takeTurn_phases [THEN conjunct2, THEN conjunct2, THEN conjunct2, THEN conjunct2,
          THEN conjunct1, rule_format, OF raise])
  then show ?thesis
    using pre ret raise by (simp add: demoGame_fields demoColony_fields noTunnels_fields)
qed

text \<open>
  With the colony of no tunnel and the wave due at turn 0, the first call of \<^verbatim>\<open>takeTurn\<close>
  raises in \<^verbatim>\<open>invade\<close>: the call does not reach the increment, and the counter is 0 after it
  as before.
\<close>

theorem takeTurn_raises_counterexample:
  "turn noTunnelsGame = 0
   \<and> waves (hive noTunnelsGame) (turn noTunnelsGame) = Some [0, 1]
   \<and> AntGame_takeTurn idleInsects zeroRandom noTunnelsGame (snd noTunnels)
       = Inl (TypeError, noTunnelsGame,
              snd (Math_random zeroRandom (Place_removeBee 0 0 (snd noTunnels))))
   \<and> turn (fst (snd (projl (AntGame_takeTurn idleInsects zeroRandom noTunnelsGame
         (snd noTunnels))))) = 0"
  by (simp add: AntGame_takeTurn_def idle_acts AntColony_placesAct_def Hive_invade_def
        noTunnels_fields noTunnels_hive AntColony_getEntrances_def Let_def split_beta)

end
